theory Spec2Isabelle
  imports Complex_Main
begin

section \<open>Numbers of the source language\<close>

text \<open>
  The source is TypeScript: every \<^verbatim>\<open>number\<close> is an IEEE double, and the sample
  arrays are \<^verbatim>\<open>Float32Array\<close>s. The model keeps the special values that decide the
  control flow of the code (NaN and the two infinities) and idealises the finite values
  of the signal arithmetic as reals, and every zero is the positive zero (the divisors
  of the code that can be zero are differences of indices and square roots, both +0).
  Rounding is modelled where the code makes a sample position or a sample count of a
  product, with \<^verbatim>\<open>Math.floor\<close> (\<open>dbl\<close> below), and where the optimizer converts its
  positions back to seconds. Sample indices, window sizes and radii are integers in
  the code; they are \<open>int\<close> here.
\<close>

datatype jsnum = NaN | NInf | Fin real | PInf

fun jneg :: "jsnum \<Rightarrow> jsnum" where
  "jneg NaN = NaN"
| "jneg NInf = PInf"
| "jneg PInf = NInf"
| "jneg (Fin a) = Fin (- a)"

fun jadd :: "jsnum \<Rightarrow> jsnum \<Rightarrow> jsnum" where
  "jadd NaN _ = NaN"
| "jadd _ NaN = NaN"
| "jadd PInf NInf = NaN"
| "jadd NInf PInf = NaN"
| "jadd PInf _ = PInf"
| "jadd _ PInf = PInf"
| "jadd NInf _ = NInf"
| "jadd _ NInf = NInf"
| "jadd (Fin a) (Fin b) = Fin (a + b)"

definition jsub :: "jsnum \<Rightarrow> jsnum \<Rightarrow> jsnum" where
  "jsub x y = jadd x (jneg y)"

text \<open>The sign of a number that is not NaN: -1, 0 or 1.\<close>

fun jsign :: "jsnum \<Rightarrow> int" where
  "jsign NaN = 0"
| "jsign NInf = - 1"
| "jsign PInf = 1"
| "jsign (Fin a) = (if a < 0 then - 1 else if a = 0 then 0 else 1)"

definition jinf :: "int \<Rightarrow> jsnum" where
  "jinf s = (if s < 0 then NInf else if s = 0 then NaN else PInf)"

fun jmul :: "jsnum \<Rightarrow> jsnum \<Rightarrow> jsnum" where
  "jmul NaN _ = NaN"
| "jmul _ NaN = NaN"
| "jmul (Fin a) (Fin b) = Fin (a * b)"
| "jmul x y = jinf (jsign x * jsign y)"

fun jdiv :: "jsnum \<Rightarrow> jsnum \<Rightarrow> jsnum" where
  "jdiv NaN _ = NaN"
| "jdiv _ NaN = NaN"
| "jdiv (Fin a) (Fin b) = (if b = 0 then jinf (jsign (Fin a)) else Fin (a / b))"
| "jdiv (Fin a) _ = Fin 0"
| "jdiv x (Fin b) = jinf (jsign x * (if b < 0 then - 1 else 1))"
| "jdiv _ _ = NaN"

fun jabs :: "jsnum \<Rightarrow> jsnum" where
  "jabs NaN = NaN"
| "jabs NInf = PInf"
| "jabs PInf = PInf"
| "jabs (Fin a) = Fin \<bar>a\<bar>"

fun jsqrt :: "jsnum \<Rightarrow> jsnum" where
  "jsqrt NaN = NaN"
| "jsqrt NInf = NaN"
| "jsqrt PInf = PInf"
| "jsqrt (Fin a) = (if a < 0 then NaN else Fin (sqrt a))"

text \<open>Comparisons: every comparison with NaN is false.\<close>

fun jlt :: "jsnum \<Rightarrow> jsnum \<Rightarrow> bool" where
  "jlt NaN _ = False"
| "jlt _ NaN = False"
| "jlt PInf _ = False"
| "jlt _ NInf = False"
| "jlt NInf _ = True"
| "jlt _ PInf = True"
| "jlt (Fin a) (Fin b) = (a < b)"

fun jle :: "jsnum \<Rightarrow> jsnum \<Rightarrow> bool" where
  "jle NaN _ = False"
| "jle _ NaN = False"
| "jle NInf _ = True"
| "jle _ PInf = True"
| "jle PInf _ = False"
| "jle _ NInf = False"
| "jle (Fin a) (Fin b) = (a \<le> b)"

definition jgt :: "jsnum \<Rightarrow> jsnum \<Rightarrow> bool" where
  "jgt x y = jlt y x"

definition jge :: "jsnum \<Rightarrow> jsnum \<Rightarrow> bool" where
  "jge x y = jle y x"

text \<open>\<^verbatim>\<open>Math.min\<close> and \<^verbatim>\<open>Math.max\<close>: NaN as soon as one argument is NaN.\<close>

definition jmin :: "jsnum \<Rightarrow> jsnum \<Rightarrow> jsnum" where
  "jmin x y = (if x = NaN \<or> y = NaN then NaN else if jle x y then x else y)"

definition jmax :: "jsnum \<Rightarrow> jsnum \<Rightarrow> jsnum" where
  "jmax x y = (if x = NaN \<or> y = NaN then NaN else if jle x y then y else x)"

definition of_idx :: "int \<Rightarrow> jsnum" where
  "of_idx i = Fin (of_int i)"

definition EPSILON :: jsnum where
  "EPSILON = Fin (1 / 1000000)"

text \<open>
  \<^verbatim>\<open>clamp(value, min, max) = Math.max(min, Math.min(max, value))\<close>. The source has one
  function; it is called on numbers and on indices, so the model has it at both types.
\<close>

definition clamp :: "jsnum \<Rightarrow> jsnum \<Rightarrow> jsnum \<Rightarrow> jsnum" where
  "clamp v mn mx = jmax mn (jmin mx v)"

definition clamp_idx :: "int \<Rightarrow> int \<Rightarrow> int \<Rightarrow> int" where
  "clamp_idx v mn mx = max mn (min mx v)"

text \<open>
  Reading a typed array: an index outside the array gives \<^verbatim>\<open>undefined\<close>, which every
  arithmetic operation and comparison of the code turns into NaN.
\<close>

definition rd :: "jsnum list \<Rightarrow> int \<Rightarrow> jsnum" where
  "rd data i = (if 0 \<le> i \<and> i < int (length data) then data ! nat i else NaN)"

text \<open>
  Rounding to double precision. The code takes \<^verbatim>\<open>Math.floor\<close> of products such as
  \<^verbatim>\<open>loopPoints.start * sampleRate\<close>, and the floor of the rounded product is not always
  the floor of the exact one. \<open>dbl x\<close> is the double nearest to \<open>x\<close>, ties to the even
  mantissa: \<open>expo x\<close> is the binary exponent of \<open>x\<close>, \<open>ulp x\<close> the unit in the last place
  of a 53-bit mantissa at that exponent, and \<open>rne\<close> rounds the mantissa to the nearest
  integer, ties to even. The exponent is not bounded: the times, rates and lengths of
  the code are far from the overflow and underflow thresholds of the format.
\<close>

definition expo :: "real \<Rightarrow> int" where
  "expo x = \<lfloor>log 2 \<bar>x\<bar>\<rfloor>"

definition ulp :: "real \<Rightarrow> real" where
  "ulp x = 2 powr real_of_int (expo x - 52)"

definition rne :: "real \<Rightarrow> int" where
  "rne y = (let f = \<lfloor>y\<rfloor>; d = y - real_of_int f
            in if d < 1 / 2 then f else if 1 / 2 < d then f + 1
               else if even f then f else f + 1)"

definition dbl :: "real \<Rightarrow> real" where
  "dbl x = (if x = 0 then 0 else ulp x * real_of_int (rne (x / ulp x)))"

section \<open>Loops\<close>

text \<open>
  \<^verbatim>\<open>for (let i = lo; i < hi; i += step) body\<close>, the only loop form of the code, with
  the loop's variables as the state. The steps of the code are the constants 1, 50 and
  100, so the guard on the step never fires.
\<close>

function for_loop :: "int \<Rightarrow> int \<Rightarrow> int \<Rightarrow> (int \<Rightarrow> 's \<Rightarrow> 's) \<Rightarrow> 's \<Rightarrow> 's" where
  "for_loop i hi step body s =
     (if i < hi \<and> 0 < step then for_loop (i + step) hi step body (body i s) else s)"
  by pat_completeness auto
termination
  by (relation "measure (\<lambda>(i, hi, step, body, s). nat (hi - i))") auto

declare for_loop.simps [simp del]

section \<open>Signal primitives (audioProcessing.ts)\<close>

definition averageAbsoluteDerivative :: "jsnum list \<Rightarrow> int \<Rightarrow> int \<Rightarrow> jsnum" where
  "averageAbsoluteDerivative audioData startSample windowSize =
     (let end' = min (startSample + windowSize) (int (length audioData) - 1);
          sum = for_loop startSample end' 1
                  (\<lambda>i sum. jadd sum (jabs (jsub (rd audioData (i + 1)) (rd audioData i))))
                  (Fin 0)
      in jdiv sum (of_idx (max 1 (end' - startSample))))"

definition calculateRMS :: "jsnum list \<Rightarrow> int \<Rightarrow> int \<Rightarrow> jsnum" where
  "calculateRMS audioData startSample windowSize =
     (let end' = min (startSample + windowSize) (int (length audioData));
          sum = for_loop startSample end' 1
                  (\<lambda>i sum. jadd sum (jmul (rd audioData i) (rd audioData i)))
                  (Fin 0)
      in jsqrt (jdiv sum (of_idx (end' - startSample))))"

section \<open>Zero-crossing locator\<close>

definition is_crossing :: "jsnum \<Rightarrow> jsnum \<Rightarrow> bool" where
  "is_crossing current next =
     ((jle current (Fin 0) \<and> jge next (Fin 0)) \<or> (jge current (Fin 0) \<and> jle next (Fin 0)))"

definition findNearestZeroCrossing :: "jsnum list \<Rightarrow> int \<Rightarrow> int \<Rightarrow> int" where
  "findNearestZeroCrossing audioData targetSample searchRadius =
     (let len = int (length audioData);
          start = max 0 (targetSample - searchRadius);
          end' = min (len - 1) (targetSample + searchRadius);
          referenceWindow = min 1024 (searchRadius div 2);
          referenceWindowStart =
            clamp_idx (targetSample - referenceWindow div 2) 0 (len - referenceWindow);
          referenceRMS = calculateRMS audioData referenceWindowStart referenceWindow;
          referenceSlope =
            jsub (rd audioData (min (targetSample + 1) (len - 1)))
                 (rd audioData (max (targetSample - 1) 0))
      in fst (for_loop start (end' - 1) 1
           (\<lambda>i (bestSample, bestScore).
              let current = rd audioData i;
                  next = rd audioData (i + 1)
              in if is_crossing current next then
                   let crossingValue = jadd (jabs current) (jabs next);
                       distanceFromTarget = \<bar>i - targetSample\<bar>;
                       slope = jsub next current;
                       slopeDiff = jabs (jsub slope referenceSlope);
                       localRMS = calculateRMS audioData
                         (clamp_idx (i - referenceWindow div 2) 0 (len - referenceWindow))
                         referenceWindow;
                       rmsDiff = jdiv (jabs (jsub referenceRMS localRMS))
                                      (jadd referenceRMS EPSILON);
                       score =
                         jadd (jadd (jadd (jmul crossingValue (Fin 0.35))
                           (jmul (jdiv (of_idx distanceFromTarget)
                                       (jadd (of_idx searchRadius) EPSILON)) (Fin 0.25)))
                           (jmul (clamp rmsDiff (Fin 0) (Fin 2)) (Fin 0.25)))
                           (jmul slopeDiff (Fin 0.15))
                   in if jlt score bestScore then (i, score) else (bestSample, bestScore)
                 else (bestSample, bestScore))
           (targetSample, PInf)))"

section \<open>Volume matcher and phase correlator\<close>

text \<open>The result object \<^verbatim>\<open>{ start, end }\<close> is the pair \<open>(start, end)\<close>.\<close>

definition findVolumeMatchedPoints :: "jsnum list \<Rightarrow> int \<Rightarrow> int \<Rightarrow> int \<Rightarrow> int \<times> int" where
  "findVolumeMatchedPoints audioData startSample endSample searchRadius =
     (let startRMS = calculateRMS audioData startSample 2048;
          searchStart = max (startSample + 1000) (endSample - searchRadius);
          searchEnd = min (int (length audioData) - 1000) (endSample + searchRadius)
      in (startSample,
          fst (for_loop searchStart searchEnd 100
            (\<lambda>i (bestEndSample, minRMSDiff).
               let endRMS = calculateRMS audioData i 2048;
                   rmsDiff = jabs (jsub startRMS endRMS)
               in if jlt rmsDiff minRMSDiff then (i, rmsDiff) else (bestEndSample, minRMSDiff))
            (endSample, PInf))))"

text \<open>
  The loop of \<^verbatim>\<open>crossCorrelation\<close> leaves with \<^verbatim>\<open>break\<close>; the first component of the
  loop state records that it has.
\<close>

definition crossCorrelation :: "jsnum list \<Rightarrow> int \<Rightarrow> int \<Rightarrow> int \<Rightarrow> jsnum" where
  "crossCorrelation audioData start1 start2 windowSize =
     (case for_loop 0 windowSize 1
        (\<lambda>i (broke, correlation, norm1, norm2).
           if broke then (broke, correlation, norm1, norm2)
           else
             let idx1 = start1 + i;
                 idx2 = start2 + i
             in if idx1 \<ge> int (length audioData) \<or> idx2 \<ge> int (length audioData)
                then (True, correlation, norm1, norm2)
                else
                  let val1 = rd audioData idx1;
                      val2 = rd audioData idx2
                  in (False, jadd correlation (jmul val1 val2),
                      jadd norm1 (jmul val1 val1), jadd norm2 (jmul val2 val2)))
        (False, Fin 0, Fin 0, Fin 0)
      of (broke, correlation, norm1, norm2) \<Rightarrow>
        jdiv correlation (jsqrt (jmul norm1 norm2)))"

definition findPhaseMatchedPoint :: "jsnum list \<Rightarrow> int \<Rightarrow> int \<Rightarrow> int \<Rightarrow> int" where
  "findPhaseMatchedPoint audioData startSample endSample searchRadius =
     (let searchStart = max (startSample + 1000) (endSample - searchRadius);
          searchEnd = min (int (length audioData) - 1024) (endSample + searchRadius)
      in fst (for_loop searchStart searchEnd 50
           (\<lambda>i (bestEndSample, maxCorrelation).
              let correlation = crossCorrelation audioData startSample i 1024
              in if jgt correlation maxCorrelation then (i, correlation)
                 else (bestEndSample, maxCorrelation))
           (endSample, NInf)))"

section \<open>Adaptive crossfade sizer\<close>

definition getAdaptiveCrossfadeDuration ::
  "jsnum list \<Rightarrow> int \<Rightarrow> int \<Rightarrow> jsnum \<Rightarrow> jsnum \<Rightarrow> jsnum" where
  "getAdaptiveCrossfadeDuration audioData startSample endSample sampleRate requestedDuration =
     (let loopSamples = max 1 (endSample - startSample);
          loopDuration = jdiv (of_idx loopSamples) sampleRate;
          analysisWindow = min 4096 (loopSamples div 2);
          startRMS = calculateRMS audioData startSample analysisWindow;
          endRMS = calculateRMS audioData (max startSample (endSample - analysisWindow))
                     analysisWindow;
          derivativeWindow = min 2048 analysisWindow;
          startDerivative = averageAbsoluteDerivative audioData startSample derivativeWindow;
          endDerivative = averageAbsoluteDerivative audioData
                            (max startSample (endSample - derivativeWindow - 1)) derivativeWindow;
          rmsDiff = jdiv (jabs (jsub startRMS endRMS)) (jmax startRMS EPSILON);
          dynamicScore = clamp (jdiv (jmax startDerivative endDerivative) (Fin 0.5))
                           (Fin 0) (Fin 1);
          energyScore = clamp rmsDiff (Fin 0) (Fin 1);
          baseDuration = clamp requestedDuration (Fin 0.015) (Fin 0.2);
          adaptiveDuration0 =
            jadd (jadd baseDuration (jmul energyScore (Fin 0.03))) (jmul dynamicScore (Fin 0.04));
          adaptiveDuration =
            (if jlt loopDuration (Fin 0.4)
             then jmul adaptiveDuration0 (clamp (jdiv loopDuration (Fin 0.4)) (Fin 0.3) (Fin 1))
             else adaptiveDuration0);
          minDuration = jmin (Fin 0.015) (jmul loopDuration (Fin 0.2));
          maxDuration = jmin (Fin 0.15) (jmul loopDuration (Fin 0.45))
      in clamp adaptiveDuration (jmax (Fin 0.01) minDuration) (jmax minDuration maxDuration))"

section \<open>Buffers and the loop optimizer\<close>

text \<open>
  An \<^verbatim>\<open>AudioBuffer\<close> is a platform object: a sample rate (a positive finite number), a
  length in samples, and one \<^verbatim>\<open>Float32Array\<close> per channel. The arrays are shared mutable
  objects, so they live in a store and the buffer holds their addresses; the store is a
  list of arrays and an address is a position in it.
\<close>

type_synonym store = "jsnum list list"

record AudioBuffer =
  sampleRate :: real
  buf_length :: nat
  channelData :: "nat list"

definition numberOfChannels :: "AudioBuffer \<Rightarrow> nat" where
  "numberOfChannels b = length (channelData b)"

definition array_at :: "store \<Rightarrow> nat \<Rightarrow> jsnum list" where
  "array_at st a = (if a < length st then st ! a else [])"

definition getChannelData :: "store \<Rightarrow> AudioBuffer \<Rightarrow> nat \<Rightarrow> jsnum list" where
  "getChannelData st b c = (if c < numberOfChannels b then array_at st (channelData b ! c) else [])"

text \<open>A buffer as the platform makes them: at least one channel, every channel an
  array of the store with the buffer's length, a positive sample rate. Its
  \<^verbatim>\<open>duration\<close> is the quotient of length and sample rate, a double.\<close>

definition wf_buffer :: "store \<Rightarrow> AudioBuffer \<Rightarrow> bool" where
  "wf_buffer st b =
     (0 < sampleRate b \<and> channelData b \<noteq> [] \<and>
      list_all (\<lambda>a. a < length st \<and> length (st ! a) = buf_length b) (channelData b))"

definition duration :: "AudioBuffer \<Rightarrow> real" where
  "duration b = dbl (real (buf_length b) / sampleRate b)"

text \<open>
  \<^verbatim>\<open>LoopPoints\<close> and \<^verbatim>\<open>OptimizedLoopPoints\<close> (audio.types.ts). The fields \<^verbatim>\<open>start\<close> and
  \<^verbatim>\<open>end\<close>, in seconds, are \<open>lp_start\<close> and \<open>lp_end\<close>; they are finite numbers.
\<close>

record LoopPoints =
  lp_start :: real
  lp_end :: real

record OptimizedLoopPoints = LoopPoints +
  startSample :: int
  endSample :: int
  crossfadeDuration :: jsnum

text \<open>
  Modelled from the spec: \<^verbatim>\<open>removeDCOffset\<close> is called by \<^verbatim>\<open>optimizeLoopPoints\<close> and is
  not defined in the sources. The spec has the optimizer work on "a DC-offset-corrected
  copy of the reference channel" and describes DC removal as subtracting the mean when
  its magnitude exceeds 1e-6: the copying counterpart of \<^verbatim>\<open>removeDCOffsetInPlace\<close>.
\<close>

definition removeDCOffset :: "jsnum list \<Rightarrow> jsnum list" where
  "removeDCOffset data =
     (let sum = for_loop 0 (int (length data)) 1 (\<lambda>i sum. jadd sum (rd data i)) (Fin 0);
          mean = jdiv sum (of_idx (max 1 (int (length data))))
      in if jlt (jabs mean) EPSILON then data else map (\<lambda>x. jsub x mean) data)"

text \<open>
  The optimizer has no \<^verbatim>\<open>throw\<close>. The one call that can fail is
  \<^verbatim>\<open>audioBuffer.getChannelData(0)\<close>, with the platform's \<^verbatim>\<open>IndexSizeError\<close> when the
  buffer has no channel.
\<close>

datatype opt_error = IndexSizeError

definition optimizeLoopPoints ::
  "store \<Rightarrow> AudioBuffer \<Rightarrow> LoopPoints \<Rightarrow> jsnum \<Rightarrow> opt_error + OptimizedLoopPoints" where
  "optimizeLoopPoints st audioBuffer loopPoints requestedCrossfade =
     (if numberOfChannels audioBuffer < 1 then Inl IndexSizeError
      else
        let sr = sampleRate audioBuffer;
            analysisSource = getChannelData st audioBuffer 0;
            audioData = removeDCOffset analysisSource;
            startSample0 = \<lfloor>dbl (lp_start loopPoints * sr)\<rfloor>;
            endSample0 = \<lfloor>dbl (lp_end loopPoints * sr)\<rfloor>;
            startSample1 = findNearestZeroCrossing audioData startSample0 2000;
            endSample1 = findNearestZeroCrossing audioData endSample0 2000;
            volumeMatched = findVolumeMatchedPoints audioData startSample1 endSample1 5000;
            endSample2 = snd volumeMatched;
            endSample3 = findNearestZeroCrossing audioData endSample2 500;
            endSample4 = findPhaseMatchedPoint audioData startSample1 endSample3 2000;
            endSample5 = findNearestZeroCrossing audioData endSample4 200;
            crossfadeDurationSeconds =
              getAdaptiveCrossfadeDuration audioData startSample1 endSample5 (Fin sr)
                requestedCrossfade;
            optimizedStart = dbl (real_of_int startSample1 / sr);
            optimizedEnd = dbl (real_of_int endSample5 / sr)
        in Inr \<lparr> lp_start = optimizedStart, lp_end = optimizedEnd,
               startSample = startSample1, endSample = endSample5,
               crossfadeDuration = crossfadeDurationSeconds \<rparr>)"

section \<open>PCM encoder (exportAudio.ts)\<close>

text \<open>
  The \<^verbatim>\<open>ArrayBuffer\<close> behind the \<^verbatim>\<open>DataView\<close> is a list of bytes, every byte a natural
  number below 256. The buffer is allocated with the exact size of header and payload
  and every write of the code lies inside it. All multi-byte writes of the code pass
  \<^verbatim>\<open>true\<close> for little-endian. The setters convert their argument as the platform does:
  modulo the width, after truncation towards zero; NaN and the infinities become 0.
\<close>

type_synonym bytes = "nat list"

definition trunc :: "real \<Rightarrow> int" where
  "trunc x = (if x < 0 then - \<lfloor>- x\<rfloor> else \<lfloor>x\<rfloor>)"

definition setUint8 :: "bytes \<Rightarrow> nat \<Rightarrow> int \<Rightarrow> bytes" where
  "setUint8 view off v = view[off := nat (v mod 256)]"

definition setUint16 :: "bytes \<Rightarrow> nat \<Rightarrow> int \<Rightarrow> bytes" where
  "setUint16 view off v =
     (let u = nat (v mod 65536)
      in view[off := u mod 256, off + 1 := u div 256])"

definition setUint32 :: "bytes \<Rightarrow> nat \<Rightarrow> int \<Rightarrow> bytes" where
  "setUint32 view off v =
     (let u = nat (v mod 4294967296)
      in view[off := u mod 256, off + 1 := u div 256 mod 256,
              off + 2 := u div 65536 mod 256, off + 3 := u div 16777216])"

definition setInt16 :: "bytes \<Rightarrow> nat \<Rightarrow> jsnum \<Rightarrow> bytes" where
  "setInt16 view off x =
     (let u = nat ((case x of Fin r \<Rightarrow> trunc r | _ \<Rightarrow> 0) mod 65536)
      in view[off := u mod 256, off + 1 := u div 256])"

definition writeString :: "bytes \<Rightarrow> nat \<Rightarrow> string \<Rightarrow> bytes" where
  "writeString view offset str =
     for_loop 0 (int (length str)) 1
       (\<lambda>i view. setUint8 view (offset + nat i) (of_char (str ! nat i))) view"

definition interleaveChannels :: "store \<Rightarrow> AudioBuffer \<Rightarrow> jsnum list" where
  "interleaveChannels st buffer =
     (let length' = buf_length buffer * numberOfChannels buffer;
          result = replicate length' (Fin 0);
          channels = map (getChannelData st buffer) [0..<numberOfChannels buffer]
      in snd (for_loop 0 (int (buf_length buffer)) 1
           (\<lambda>i. for_loop 0 (int (numberOfChannels buffer)) 1
              (\<lambda>channel (index, result).
                 (index + 1, result[index := rd (channels ! nat channel) i])))
           (0, result)))"

definition audioBufferToWav :: "store \<Rightarrow> AudioBuffer \<Rightarrow> bytes" where
  "audioBufferToWav st buffer =
     (let format = 1;
          bitDepth = 16;
          bytesPerSample = bitDepth div 8;
          blockAlign = numberOfChannels buffer * bytesPerSample;
          data = interleaveChannels st buffer;
          dataLength = length data * bytesPerSample;
          bufferLength = 44 + dataLength;
          view0 = replicate bufferLength 0;
          view1 = writeString view0 0 ''RIFF'';
          view2 = setUint32 view1 4 (int (36 + dataLength));
          view3 = writeString view2 8 ''WAVE'';
          view4 = writeString view3 12 ''fmt '';
          view5 = setUint32 view4 16 16;
          view6 = setUint16 view5 20 format;
          view7 = setUint16 view6 22 (int (numberOfChannels buffer));
          view8 = setUint32 view7 24 (trunc (sampleRate buffer));
          view9 = setUint32 view8 28 (trunc (sampleRate buffer * real blockAlign));
          view10 = setUint16 view9 32 (int blockAlign);
          view11 = setUint16 view10 34 (int bitDepth);
          view12 = writeString view11 36 ''data'';
          view13 = setUint32 view12 40 (int dataLength)
      in snd (for_loop 0 (int (length data)) 1
           (\<lambda>i (offset, view).
              let sample = jmax (Fin (- 1)) (jmin (Fin 1) (rd data i));
                  intSample = (if jlt sample (Fin 0) then jmul sample (Fin 32768)
                               else jmul sample (Fin 32767))
              in (offset + 2, setInt16 view offset intSample))
           (44, view13)))"

text \<open>
  Modelled from the spec: the "reference PCM16 reader" of the round-trip property.
  Decoding is outside the repository; the reader takes the fields of the canonical
  44-byte header and reads every little-endian signed 16-bit word of the payload as a
  sample, divided by 32768.
\<close>

definition getUint16 :: "bytes \<Rightarrow> nat \<Rightarrow> nat" where
  "getUint16 view off = view ! off + 256 * view ! (off + 1)"

definition getUint32 :: "bytes \<Rightarrow> nat \<Rightarrow> nat" where
  "getUint32 view off =
     view ! off + 256 * view ! (off + 1) + 65536 * view ! (off + 2) + 16777216 * view ! (off + 3)"

definition getInt16 :: "bytes \<Rightarrow> nat \<Rightarrow> int" where
  "getInt16 view off =
     (let u = int (getUint16 view off) in if u \<ge> 32768 then u - 65536 else u)"

definition pcm16_sample :: "bytes \<Rightarrow> nat \<Rightarrow> real" where
  "pcm16_sample view k = real_of_int (getInt16 view (44 + 2 * k)) / 32768"

section \<open>Crossfade and seam synthesis (crossfade.ts)\<close>

text \<open>
  The synthesis writes into typed arrays in place, so its functions take and return a
  state: the store of arrays, and a ghost trace that records the address and the index
  of every element access (read or write), in reverse order of time. A write outside
  the array is ignored by the platform, a read outside gives \<^verbatim>\<open>undefined\<close>.
\<close>

record cf_state =
  heap :: store
  trace :: "(nat \<times> int) list"

definition load :: "nat \<Rightarrow> int \<Rightarrow> cf_state \<Rightarrow> jsnum \<times> cf_state" where
  "load a i s = (rd (array_at (heap s) a) i, s\<lparr>trace := (a, i) # trace s\<rparr>)"

definition wr :: "store \<Rightarrow> nat \<Rightarrow> int \<Rightarrow> jsnum \<Rightarrow> store" where
  "wr h a i v =
     (if a < length h \<and> 0 \<le> i \<and> i < int (length (h ! a))
      then h[a := (h ! a)[nat i := v]] else h)"

definition store_at :: "nat \<Rightarrow> int \<Rightarrow> jsnum \<Rightarrow> cf_state \<Rightarrow> cf_state" where
  "store_at a i v s = s\<lparr>heap := wr (heap s) a i v, trace := (a, i) # trace s\<rparr>"

text \<open>
  \<^verbatim>\<open>AudioContext.createBuffer\<close>, the platform's allocator: new zero-filled arrays, one per
  channel, at fresh addresses. It raises \<^verbatim>\<open>NotSupportedError\<close> for a channel count or a
  length below 1 (its upper limits and its bounds on the sample rate are not modelled).
\<close>

datatype cf_error = NotSupportedError | NonTermination

definition createBuffer ::
  "cf_state \<Rightarrow> nat \<Rightarrow> int \<Rightarrow> real \<Rightarrow> cf_error + (AudioBuffer \<times> cf_state)" where
  "createBuffer s channels len rate =
     (if channels < 1 \<or> len < 1 then Inl NotSupportedError
      else Inr (\<lparr>sampleRate = rate, buf_length = nat len,
                  channelData = [length (heap s)..<length (heap s) + channels]\<rparr>,
                s\<lparr>heap := heap s @ replicate channels (replicate (nat len) (Fin 0))\<rparr>))"

fun jsin :: "jsnum \<Rightarrow> jsnum" where
  "jsin (Fin a) = Fin (sin a)"
| "jsin _ = NaN"

fun jcos :: "jsnum \<Rightarrow> jsnum" where
  "jcos (Fin a) = Fin (cos a)"
| "jcos _ = NaN"

definition getFadeInGain :: "jsnum \<Rightarrow> bool \<Rightarrow> jsnum" where
  "getFadeInGain progress useHann =
     (if useHann
      then jsqrt (jsub (Fin 0.5) (jmul (Fin 0.5) (jcos (jmul (Fin pi) progress))))
      else jsin (jdiv (jmul progress (Fin pi)) (Fin 2)))"

definition getFadeOutGain :: "jsnum \<Rightarrow> bool \<Rightarrow> jsnum" where
  "getFadeOutGain progress useHann =
     (if useHann
      then jsqrt (jadd (Fin 0.5) (jmul (Fin 0.5) (jcos (jmul (Fin pi) progress))))
      else jcos (jdiv (jmul progress (Fin pi)) (Fin 2)))"

definition removeDCOffsetInPlace :: "nat \<Rightarrow> cf_state \<Rightarrow> cf_state" where
  "removeDCOffsetInPlace data s0 =
     (let len = int (length (array_at (heap s0) data));
          (sum, s1) = for_loop 0 len 1
             (\<lambda>i (sum, s). let (v, s) = load data i s in (jadd sum v, s)) (Fin 0, s0);
          mean = jdiv sum (of_idx (max 1 len))
      in if jlt (jabs mean) EPSILON then s1
         else for_loop 0 len 1
                (\<lambda>i s. let (v, s) = load data i s in store_at data i (jsub v mean) s) s1)"

definition getSegmentMean :: "nat \<Rightarrow> int \<Rightarrow> int \<Rightarrow> cf_state \<Rightarrow> jsnum \<times> cf_state" where
  "getSegmentMean data start len s0 =
     (let n = int (length (array_at (heap s0) data));
          clampedStart = max 0 (min start (n - 1));
          clampedEnd = min (clampedStart + len) n;
          (sum, s1) = for_loop clampedStart clampedEnd 1
             (\<lambda>i (sum, s). let (v, s) = load data i s in (jadd sum v, s)) (Fin 0, s0)
      in (jdiv sum (of_idx (max 1 (clampedEnd - clampedStart))), s1))"

definition getAverageSlope :: "nat \<Rightarrow> int \<Rightarrow> int \<Rightarrow> cf_state \<Rightarrow> jsnum \<times> cf_state" where
  "getAverageSlope data start len s0 =
     (let n = int (length (array_at (heap s0) data));
          window = max 2 (min len (n - start));
          (sum, s1) = for_loop 0 (window - 1) 1
             (\<lambda>i (sum, s).
                let idx = start + i;
                    (b, s) = load data (idx + 1) s;
                    (a, s) = load data idx s
                in (jadd sum (jsub b a), s)) (Fin 0, s0)
      in (jdiv sum (of_idx (max 1 (window - 1))), s1))"

definition smoothLoopSeam :: "nat \<Rightarrow> cf_state \<Rightarrow> cf_state" where
  "smoothLoopSeam data s0 =
     (let n = int (length (array_at (heap s0) data));
          seamWindow = min 2048 \<lfloor>dbl (real_of_int n * dbl 0.1)\<rfloor>
      in if seamWindow < 4 then s0
         else
           let tailStart = n - seamWindow;
               (startMean, s1) = getSegmentMean data 0 seamWindow s0;
               (endMean, s2) = getSegmentMean data tailStart seamWindow s1;
               meanOffset = jsub endMean startMean;
               s3 = for_loop 0 seamWindow 1
                 (\<lambda>i s.
                    let progress = jdiv (of_idx (i + 1)) (of_idx seamWindow);
                        idx = tailStart + i;
                        (v, s) = load data idx s
                    in store_at data idx (jsub v (jmul meanOffset progress)) s) s2;
               (startSlope, s4) = getAverageSlope data 0 seamWindow s3;
               (endSlope, s5) = getAverageSlope data tailStart seamWindow s4;
               slopeOffset = jsub endSlope startSlope;
               s6 = for_loop 0 seamWindow 1
                 (\<lambda>i s.
                    let progress = jdiv (of_idx (i + 1)) (of_idx seamWindow);
                        idx = tailStart + i;
                        (v, s) = load data idx s
                    in store_at data idx
                         (jsub v (jmul (jmul (jmul slopeOffset progress) (of_idx seamWindow))
                                       (Fin 0.5))) s) s5
           in for_loop 0 2 1
                (\<lambda>pass s.
                   let (previous, s) = load data tailStart s
                   in snd (for_loop 1 (seamWindow - 1) 1
                        (\<lambda>i (previous, s).
                           let idx = tailStart + i;
                               (current, s) = load data idx s;
                               (next, s) = load data (idx + 1) s;
                               s = store_at data idx
                                     (jadd (jmul current (Fin 0.5))
                                           (jmul (jadd previous next) (Fin 0.25))) s
                           in (current, s))
                        (previous, s))) s6)"

text \<open>
  The body of the channel loop of \<^verbatim>\<open>applyCrossfade\<close> is a sequence of five loops, then
  the DC removal and the seam smoothing. Each loop is a definition here, named after
  the comment that introduces it in the source; \<open>inputData\<close> and \<open>outputData\<close> are the
  addresses of the channel's arrays in the input and in the new buffer.
\<close>

definition copyLoopSegment :: "nat \<Rightarrow> nat \<Rightarrow> int \<Rightarrow> int \<Rightarrow> cf_state \<Rightarrow> cf_state" where
  "copyLoopSegment inputData outputData start loopLength s0 =
     for_loop 0 loopLength 1
       (\<lambda>i s. let (v, s) = load inputData (start + i) s in store_at outputData i v s) s0"

definition blendTailIntoStart ::
  "nat \<Rightarrow> nat \<Rightarrow> int \<Rightarrow> int \<Rightarrow> int \<Rightarrow> cf_state \<Rightarrow> cf_state" where
  "blendTailIntoStart inputData outputData start end' stitchLength s0 =
     for_loop 0 stitchLength 1
       (\<lambda>i s.
          let mixProgress = jdiv (of_idx i) (of_idx (max 1 (stitchLength - 1)));
              blendAmount = jmul (Fin 0.35) (jsub (Fin 1) mixProgress);
              tailIndex = max start (end' - stitchLength + i);
              (out, s) = load outputData i s;
              (tail, s) = load inputData tailIndex s
          in store_at outputData i
               (jadd (jmul out (jsub (Fin 1) blendAmount)) (jmul tail blendAmount)) s) s0"

definition crossfadeAtBeginning ::
  "nat \<Rightarrow> nat \<Rightarrow> int \<Rightarrow> int \<Rightarrow> bool \<Rightarrow> cf_state \<Rightarrow> cf_state" where
  "crossfadeAtBeginning inputData outputData end' fadeLength useHannFade s0 =
     for_loop 0 fadeLength 1
       (\<lambda>i s.
          let progress = jdiv (of_idx i) (of_idx (max 1 (fadeLength - 1)));
              fadeInGain = getFadeInGain progress useHannFade;
              fadeOutGain = getFadeOutGain progress useHannFade;
              (endLoopSample, s) = load inputData (end' - fadeLength + i) s;
              (startLoopSample, s) = load outputData i s
          in store_at outputData i
               (jadd (jmul fadeInGain startLoopSample) (jmul fadeOutGain endLoopSample)) s) s0"

definition crossfadeAtEnd ::
  "nat \<Rightarrow> nat \<Rightarrow> int \<Rightarrow> int \<Rightarrow> int \<Rightarrow> bool \<Rightarrow> cf_state \<Rightarrow> cf_state" where
  "crossfadeAtEnd inputData outputData start loopLength fadeLength useHannFade s0 =
     for_loop 0 fadeLength 1
       (\<lambda>i s.
          let progress = jdiv (of_idx i) (of_idx (max 1 (fadeLength - 1)));
              fadeOutGain = getFadeOutGain progress useHannFade;
              fadeInGain = getFadeInGain progress useHannFade;
              (currentSample, s) = load outputData (loopLength - fadeLength + i) s;
              (startLoopSample, s) = load inputData (start + i) s
          in store_at outputData (loopLength - fadeLength + i)
               (jadd (jmul fadeOutGain currentSample) (jmul fadeInGain startLoopSample)) s) s0"

definition preBlendStartIntoTail ::
  "nat \<Rightarrow> nat \<Rightarrow> int \<Rightarrow> int \<Rightarrow> int \<Rightarrow> cf_state \<Rightarrow> cf_state" where
  "preBlendStartIntoTail inputData outputData start loopLength stitchLength s0 =
     for_loop 0 stitchLength 1
       (\<lambda>i s.
          let mixProgress = jdiv (of_idx i) (of_idx (max 1 (stitchLength - 1)));
              blendAmount = jmul (Fin 0.35) mixProgress;
              targetIndex = loopLength - stitchLength + i;
              (out, s) = load outputData targetIndex s;
              (head, s) = load inputData (start + i) s
          in store_at outputData targetIndex
               (jadd (jmul out (jsub (Fin 1) blendAmount)) (jmul head blendAmount)) s) s0"

definition crossfadeChannel ::
  "nat \<Rightarrow> nat \<Rightarrow> int \<Rightarrow> int \<Rightarrow> int \<Rightarrow> int \<Rightarrow> int \<Rightarrow> bool \<Rightarrow> cf_state \<Rightarrow> cf_state" where
  "crossfadeChannel inputData outputData start end' loopLength fadeLength stitchLength
       useHannFade s0 =
     (let s1 = copyLoopSegment inputData outputData start loopLength s0;
          s2 = blendTailIntoStart inputData outputData start end' stitchLength s1;
          s3 = crossfadeAtBeginning inputData outputData end' fadeLength useHannFade s2;
          s4 = crossfadeAtEnd inputData outputData start loopLength fadeLength useHannFade s3;
          s5 = preBlendStartIntoTail inputData outputData start loopLength stitchLength s4;
          s6 = removeDCOffsetInPlace outputData s5
      in smoothLoopSeam outputData s6)"

text \<open>
  \<open>fadeLength = Math.floor(crossfadeDuration * sampleRate)\<close> bounds loops;
  \<open>fadeLength_of\<close> takes the product before its rounding. When the product is NaN or
  -Infinity, no loop bounded by it or by \<open>stitchLength\<close> runs, as for the fade length 0;
  when it is +Infinity the fade loop never ends, and there is no fade length.
\<close>

definition fadeLength_of :: "jsnum \<Rightarrow> int option" where
  "fadeLength_of x = (case x of Fin r \<Rightarrow> Some \<lfloor>dbl r\<rfloor> | PInf \<Rightarrow> None | _ \<Rightarrow> Some 0)"

definition applyCrossfade ::
  "cf_state \<Rightarrow> AudioBuffer \<Rightarrow> OptimizedLoopPoints \<Rightarrow> cf_error + (AudioBuffer \<times> cf_state)" where
  "applyCrossfade s0 audioBuffer loopPoints =
     (let rate = sampleRate audioBuffer;
          channels = numberOfChannels audioBuffer;
          useHannFade = jge (crossfadeDuration loopPoints) (Fin 0.075);
          start = startSample loopPoints;
          end' = endSample loopPoints;
          loopLength = end' - start
      in case createBuffer s0 channels loopLength rate of
           Inl e \<Rightarrow> Inl e
         | Inr (newBuffer, s1) \<Rightarrow>
             (case fadeLength_of (jmul (crossfadeDuration loopPoints) (Fin rate)) of
                None \<Rightarrow> Inl NonTermination
              | Some fadeLength \<Rightarrow>
                  let stitchLength =
                        min fadeLength \<lfloor>dbl (real_of_int loopLength * dbl 0.2)\<rfloor>
                  in Inr (newBuffer,
                       for_loop 0 (int channels) 1
                         (\<lambda>channel s.
                            crossfadeChannel (channelData audioBuffer ! nat channel)
                              (channelData newBuffer ! nat channel)
                              start end' loopLength fadeLength stitchLength useHannFade s)
                         s1)))"

text \<open>The target duration of \<^verbatim>\<open>createExtendedLoop\<close> is a finite number of seconds.\<close>

definition createExtendedLoop ::
  "cf_state \<Rightarrow> AudioBuffer \<Rightarrow> real \<Rightarrow> cf_error + (AudioBuffer \<times> cf_state)" where
  "createExtendedLoop s0 loopBuffer targetDuration =
     (let rate = sampleRate loopBuffer;
          channels = numberOfChannels loopBuffer;
          loopLength = int (buf_length loopBuffer);
          totalSamples = \<lfloor>dbl (targetDuration * rate)\<rfloor>
      in case createBuffer s0 channels totalSamples rate of
           Inl e \<Rightarrow> Inl e
         | Inr (extendedBuffer, s1) \<Rightarrow>
             Inr (extendedBuffer,
               for_loop 0 (int channels) 1
                 (\<lambda>channel.
                    for_loop 0 totalSamples 1
                      (\<lambda>i s.
                         let (v, s) =
                               (if loopLength = 0 then (NaN, s)
                                else load (channelData loopBuffer ! nat channel)
                                       (i mod loopLength) s)
                         in store_at (channelData extendedBuffer ! nat channel) i v s))
                 s1))"

definition createLoopableSegment ::
  "cf_state \<Rightarrow> AudioBuffer \<Rightarrow> OptimizedLoopPoints \<Rightarrow> cf_error + (AudioBuffer \<times> cf_state)" where
  "createLoopableSegment s audioBuffer loopPoints = applyCrossfade s audioBuffer loopPoints"

section \<open>Shapes, frames and safe traces\<close>

text \<open>
  The shape of a store is the list of the lengths of its arrays. An access is in range
  for a shape when its address is an array of the store and its index lies in that
  array; a trace is safe when every access it records is in range.
\<close>

definition shape :: "store \<Rightarrow> nat list" where
  "shape h = map length h"

definition in_range :: "nat list \<Rightarrow> nat \<times> int \<Rightarrow> bool" where
  "in_range sh x = (fst x < length sh \<and> 0 \<le> snd x \<and> snd x < int (sh ! fst x))"

definition safe :: "nat list \<Rightarrow> (nat \<times> int) list \<Rightarrow> bool" where
  "safe sh tr = list_all (in_range sh) tr"

text \<open>Two stores that differ at most in the array at one address.\<close>

definition only_at :: "nat \<Rightarrow> store \<Rightarrow> store \<Rightarrow> bool" where
  "only_at a h h' = (shape h' = shape h \<and> (\<forall>a'<length h. a' \<noteq> a \<longrightarrow> h' ! a' = h ! a'))"

definition safe_state :: "nat list \<Rightarrow> cf_state \<Rightarrow> bool" where
  "safe_state sh s = (shape (heap s) = sh \<and> safe sh (trace s))"

text \<open>The accesses recorded by a call that returns; none when it does not.\<close>

definition accesses :: "cf_error + (AudioBuffer \<times> cf_state) \<Rightarrow> (nat \<times> int) list" where
  "accesses r = (case r of Inl e \<Rightarrow> [] | Inr (nb, s) \<Rightarrow> trace s)"

text \<open>An array of \<open>n\<close> elements that are all NaN, and a channel of the buffer that a call
  returns.\<close>

definition all_NaN :: "nat \<Rightarrow> nat \<Rightarrow> cf_state \<Rightarrow> bool" where
  "all_NaN a n s = (array_at (heap s) a = replicate n NaN)"

definition output_channel :: "cf_error + (AudioBuffer \<times> cf_state) \<Rightarrow> nat \<Rightarrow> jsnum list" where
  "output_channel r c = (case r of Inl e \<Rightarrow> [] | Inr (nb, s) \<Rightarrow> getChannelData (heap s) nb c)"

section \<open>Well-formed samples\<close>

text \<open>A decoded sample is a finite number.\<close>

fun is_fin :: "jsnum \<Rightarrow> bool" where
  "is_fin (Fin _) = True"
| "is_fin _ = False"

definition finite_samples :: "jsnum list \<Rightarrow> bool" where
  "finite_samples data = list_all is_fin data"

section \<open>Properties\<close>

subsection \<open>The loop combinator\<close>

lemma for_loop_done: "\<not> i < hi \<Longrightarrow> for_loop i hi step body s = s"
  by (simp add: for_loop.simps)

lemma for_loop_inv:
  assumes "0 < step" and "I i s"
    and "\<And>j t. i \<le> j \<Longrightarrow> j < hi \<Longrightarrow> I j t \<Longrightarrow> I (j + step) (body j t)"
  shows "\<exists>j. i \<le> j \<and> hi \<le> j \<and> I j (for_loop i hi step body s)"
  using assms
proof (induction i hi step body s rule: for_loop.induct)
  case (1 i hi step body s)
  show ?case
  proof (cases "i < hi")
    case True
    have "\<exists>j. i + step \<le> j \<and> hi \<le> j \<and> I j (for_loop (i + step) hi step body (body i s))"
    proof (rule "1.IH")
      show "i < hi \<and> 0 < step" using True "1.prems"(1) by simp
      show "0 < step" by (rule "1.prems"(1))
      show "I (i + step) (body i s)"
        using "1.prems"(3) [of i s] True "1.prems"(2) by simp
      fix j t assume "i + step \<le> j" "j < hi" "I j t"
      then show "I (j + step) (body j t)"
        using "1.prems"(3) [of j t] "1.prems"(1) by simp
    qed
    then obtain j where "hi \<le> j" "i + step \<le> j"
      "I j (for_loop (i + step) hi step body (body i s))"
      by blast
    moreover have "for_loop i hi step body s = for_loop (i + step) hi step body (body i s)"
      using True "1.prems"(1) by (subst for_loop.simps) simp
    ultimately show ?thesis using "1.prems"(1) by (intro exI [of _ j]) simp
  next
    case False
    then show ?thesis using "1.prems"(2) by (intro exI [of _ i]) (simp add: for_loop_done)
  qed
qed

text \<open>An invariant that does not mention the loop variable.\<close>

lemma for_loop_pres:
  assumes "P s" and "\<And>j t. i \<le> j \<Longrightarrow> j < hi \<Longrightarrow> P t \<Longrightarrow> P (body j t)"
  shows "P (for_loop i hi step body s)"
proof (cases "0 < step")
  case True
  from for_loop_inv [where I = "\<lambda>_. P", OF True assms(1)] assms(2)
  show ?thesis by blast
next
  case False
  then show ?thesis using assms(1) by (subst for_loop.simps) simp
qed

text \<open>A loop with step 1 ends at its bound.\<close>

lemma for_loop_unit:
  assumes "lo \<le> hi" and "I lo s"
    and "\<And>j t. lo \<le> j \<Longrightarrow> j < hi \<Longrightarrow> I j t \<Longrightarrow> I (j + 1) (body j t)"
  shows "I hi (for_loop lo hi 1 body s)"
proof -
  have "\<exists>j. lo \<le> j \<and> hi \<le> j \<and> (j \<le> hi \<and> I j (for_loop lo hi 1 body s))"
    by (rule for_loop_inv [where I = "\<lambda>j t. j \<le> hi \<and> I j t"]) (use assms in auto)
  then obtain j where "hi \<le> j" "j \<le> hi" "I j (for_loop lo hi 1 body s)" by blast
  then show ?thesis by simp
qed

lemma mod_step: "(j - L) mod k = 0 \<Longrightarrow> (j + k - L) mod k = (0::int)"
proof -
  assume a: "(j - L) mod k = 0"
  have "j + k - L = (j - L) + k" by simp
  then show ?thesis using a by (metis mod_add_self2)
qed

subsection \<open>Numbers\<close>

lemma jlt_not_NaN: "jlt x y \<Longrightarrow> x \<noteq> NaN \<and> y \<noteq> NaN"
  by (cases x; cases y) auto

lemma jmin_Fin [simp]: "jmin (Fin a) (Fin b) = Fin (min a b)"
  by (simp add: jmin_def min_def)

lemma jmax_Fin [simp]: "jmax (Fin a) (Fin b) = Fin (max a b)"
  by (simp add: jmax_def max_def)

lemma clamp_Fin [simp]: "clamp (Fin v) (Fin lo) (Fin hi) = Fin (max lo (min hi v))"
  by (simp add: clamp_def)

lemma clamp_not_NaN: "v \<noteq> NaN \<Longrightarrow> lo \<le> hi \<Longrightarrow> \<exists>q. clamp v (Fin lo) (Fin hi) = Fin q"
  by (cases v) (auto simp: clamp_def jmin_def jmax_def)

lemma clamp_upper:
  "mn \<le> mx \<Longrightarrow> max (max c mn) (min (max mn mx) v) \<le> max c (mx::real)"
  by (simp add: max_def min_def)

subsection \<open>Rounding to double precision\<close>

lemma rne_of_int [simp]: "rne (real_of_int m) = m"
  by (simp add: rne_def)

lemma rne_ge: "real_of_int m \<le> y \<Longrightarrow> m \<le> rne y"
proof -
  assume "real_of_int m \<le> y"
  then have "m \<le> \<lfloor>y\<rfloor>" by (simp add: le_floor_iff)
  then show ?thesis unfolding rne_def Let_def by auto
qed

lemma rne_le: "y \<le> real_of_int m \<Longrightarrow> rne y \<le> m"
  unfolding rne_def Let_def by (auto; linarith)

lemma rne_mono: "x \<le> y \<Longrightarrow> rne x \<le> rne y"
proof -
  assume xy: "x \<le> y"
  have f: "\<lfloor>x\<rfloor> \<le> \<lfloor>y\<rfloor>" using xy by (rule floor_mono)
  show ?thesis
  proof (cases "\<lfloor>x\<rfloor> = \<lfloor>y\<rfloor>")
    case True
    then show ?thesis using xy unfolding rne_def Let_def by auto
  next
    case False
    then have "\<lfloor>x\<rfloor> + 1 \<le> \<lfloor>y\<rfloor>" using f by simp
    moreover have "rne x \<le> \<lfloor>x\<rfloor> + 1" unfolding rne_def Let_def by auto
    moreover have "\<lfloor>y\<rfloor> \<le> rne y" unfolding rne_def Let_def by auto
    ultimately show ?thesis by linarith
  qed
qed

lemma rne_near: "\<bar>real_of_int (rne y) - y\<bar> \<le> 1 / 2"
  unfolding rne_def Let_def by (auto; linarith)

lemma ulp_pos [simp]: "0 < ulp x"
  by (simp add: ulp_def)

lemma ulp_neq0 [simp]: "ulp x \<noteq> 0"
  using ulp_pos [of x] by linarith

lemma ulp_shift: "ulp x * 2 ^ n = 2 powr real_of_int (expo x - 52 + int n)"
  by (simp add: ulp_def powr_add powr_realpow)

lemma expo_bounds:
  assumes "x \<noteq> 0"
  shows "2 powr real_of_int (expo x) \<le> \<bar>x\<bar>" and "\<bar>x\<bar> < 2 powr real_of_int (expo x + 1)"
proof -
  have pos: "0 < \<bar>x\<bar>" using assms by simp
  have "real_of_int (expo x) \<le> log 2 \<bar>x\<bar>" by (simp add: expo_def)
  then have "2 powr real_of_int (expo x) \<le> 2 powr log 2 \<bar>x\<bar>" by simp
  then show "2 powr real_of_int (expo x) \<le> \<bar>x\<bar>" using pos by simp
  have "log 2 \<bar>x\<bar> < real_of_int (expo x + 1)" by (simp add: expo_def)
  then have "2 powr log 2 \<bar>x\<bar> < 2 powr real_of_int (expo x + 1)" by simp
  then show "\<bar>x\<bar> < 2 powr real_of_int (expo x + 1)" using pos by simp
qed

lemma expo_unique:
  assumes "2 powr real_of_int e \<le> \<bar>x\<bar>" "\<bar>x\<bar> < 2 powr real_of_int (e + 1)"
  shows "expo x = e"
proof -
  have pos: "0 < \<bar>x\<bar>" using assms(1) by (smt (verit) powr_gt_zero)
  have "log 2 (2 powr real_of_int e) \<le> log 2 \<bar>x\<bar>"
    using assms(1) pos by (subst log_le_cancel_iff) auto
  then have a: "real_of_int e \<le> log 2 \<bar>x\<bar>" by simp
  have "log 2 \<bar>x\<bar> < log 2 (2 powr real_of_int (e + 1))"
    using assms(2) pos by (subst log_less_cancel_iff) auto
  then have b: "log 2 \<bar>x\<bar> < real_of_int (e + 1)" by simp
  show ?thesis unfolding expo_def using a b by (simp add: floor_eq_iff)
qed


lemma mant_bounds:
  assumes "0 < x"
  shows "2 ^ 52 \<le> x / ulp x" and "x / ulp x < 2 ^ 53"
proof -
  have x: "x \<noteq> 0" "\<bar>x\<bar> = x" using assms by auto
  have u: "ulp x * 2 ^ 52 = 2 powr real_of_int (expo x)"
    using ulp_shift [of x 52] by simp
  have u2: "ulp x * 2 ^ 53 = 2 powr real_of_int (expo x + 1)"
    using ulp_shift [of x 53] by (simp add: add.commute)
  have "ulp x * 2 ^ 52 \<le> x" using expo_bounds(1) [OF x(1)] x(2) u by simp
  then show "2 ^ 52 \<le> x / ulp x" by (simp add: pos_le_divide_eq mult.commute)
  have "x < ulp x * 2 ^ 53" using expo_bounds(2) [OF x(1)] x(2) u2 by simp
  then show "x / ulp x < 2 ^ 53" by (simp add: pos_divide_less_eq mult.commute)
qed

lemma dbl_zero [simp]: "dbl 0 = 0"
  by (simp add: dbl_def)

lemma dbl_nonneg: "0 \<le> x \<Longrightarrow> 0 \<le> dbl x"
proof -
  assume "0 \<le> x"
  then have "real_of_int 0 \<le> x / ulp x" by (simp add: divide_nonneg_pos)
  then have "0 \<le> rne (x / ulp x)" by (rule rne_ge)
  then show ?thesis by (simp add: dbl_def less_imp_le)
qed

lemma dbl_range:
  assumes "0 < x"
  shows "ulp x * 2 ^ 52 \<le> dbl x" and "dbl x \<le> ulp x * 2 ^ 53"
proof -
  have "real_of_int (2 ^ 52) \<le> x / ulp x" using mant_bounds(1) [OF assms] by simp
  then have "2 ^ 52 \<le> rne (x / ulp x)" by (rule rne_ge)
  then have "(2 ^ 52 :: real) \<le> real_of_int (rne (x / ulp x))"
    using of_int_le_iff [of "2 ^ 52" "rne (x / ulp x)", where 'a = real] by simp
  then show "ulp x * 2 ^ 52 \<le> dbl x" using assms by (simp add: dbl_def)
  have "x / ulp x \<le> real_of_int (2 ^ 53)" using mant_bounds(2) [OF assms] by simp
  then have "rne (x / ulp x) \<le> 2 ^ 53" by (rule rne_le)
  then have "real_of_int (rne (x / ulp x)) \<le> (2 ^ 53 :: real)"
    using of_int_le_iff [of "rne (x / ulp x)" "2 ^ 53", where 'a = real] by simp
  then show "dbl x \<le> ulp x * 2 ^ 53" using assms by (simp add: dbl_def)
qed

lemma expo_mono:
  assumes "0 < x" "x \<le> y"
  shows "expo x \<le> expo y"
proof -
  have "log 2 x \<le> log 2 y" using assms by simp
  then show ?thesis using assms by (simp add: expo_def floor_mono)
qed

lemma dbl_mono:
  assumes "0 \<le> x" "x \<le> y"
  shows "dbl x \<le> dbl y"
proof (cases "x = 0")
  case True
  then show ?thesis using dbl_nonneg [of y] assms by simp
next
  case False
  then have x: "0 < x" and y: "0 < y" using assms by auto
  show ?thesis
  proof (cases "expo x = expo y")
    case True
    then have u: "ulp x = ulp y" by (simp add: ulp_def)
    have "x / ulp y \<le> y / ulp y" using assms(2) by (intro divide_right_mono) (simp_all add: less_imp_le)
    then have "rne (x / ulp y) \<le> rne (y / ulp y)" by (rule rne_mono)
    then show ?thesis using x y u by (simp add: dbl_def)
  next
    case False
    then have "expo x + 1 \<le> expo y" using expo_mono [OF x assms(2)] by simp
    then have "real_of_int (expo x - 52 + int 1) \<le> real_of_int (expo y - 52)" by simp
    then have "2 powr real_of_int (expo x - 52 + int 1) \<le> 2 powr real_of_int (expo y - 52)"
      by (intro powr_mono) simp_all
    then have "ulp x * 2 ^ 1 \<le> 2 powr real_of_int (expo y - 52)" by (simp only: ulp_shift)
    then have "ulp x * 2 \<le> ulp y" by (simp add: ulp_def [of y])
    then have "ulp x * 2 * 2 ^ 52 \<le> ulp y * 2 ^ 52" by simp
    then have "ulp x * 2 ^ 53 \<le> ulp y * 2 ^ 52" by simp
    then show ?thesis using dbl_range(2) [OF x] dbl_range(1) [OF y] by linarith
  qed
qed

text \<open>A number with a mantissa of at most 53 bits is a double.\<close>

lemma dbl_exact:
  assumes m: "\<bar>m\<bar> < 2 ^ 53"
  shows "dbl (real_of_int m * 2 powr real_of_int k) = real_of_int m * 2 powr real_of_int k"
proof (cases "m = 0")
  case True
  then show ?thesis by simp
next
  case False
  define x where "x = real_of_int m * 2 powr real_of_int k"
  have x0: "x \<noteq> 0" using False by (simp add: x_def)
  have ax: "\<bar>x\<bar> = real_of_int \<bar>m\<bar> * 2 powr real_of_int k" by (simp add: x_def abs_mult)
  have "real_of_int \<bar>m\<bar> < 2 ^ 53"
    using m of_int_less_iff [of "\<bar>m\<bar>" "2 ^ 53", where 'a = real] by simp
  then have "\<bar>x\<bar> < 2 ^ 53 * 2 powr real_of_int k" unfolding ax by simp
  also have "\<dots> = 2 powr (53 + real_of_int k)" by (simp add: powr_add)
  finally have "2 powr real_of_int (expo x) < 2 powr (53 + real_of_int k)"
    using expo_bounds(1) [OF x0] by linarith
  then have "real_of_int (expo x) < 53 + real_of_int k" by simp
  then have e: "expo x \<le> 52 + k" by linarith
  define j where "j = nat (52 + k - expo x)"
  have j: "real_of_int k = real_of_int (expo x - 52) + real j" using e by (simp add: j_def)
  have pk: "2 powr real_of_int k = ulp x * 2 ^ j"
    unfolding j ulp_def by (simp add: powr_add powr_realpow)
  have "x = real_of_int m * 2 powr real_of_int k" by (rule x_def)
  also have "\<dots> = ulp x * real_of_int (m * 2 ^ j)" by (simp only: pk) simp
  finally have xe: "x = ulp x * real_of_int (m * 2 ^ j)" .
  then have "x / ulp x = ulp x * real_of_int (m * 2 ^ j) / ulp x"
    by (rule arg_cong [where f = "\<lambda>t. t / ulp x"])
  then have q: "x / ulp x = real_of_int (m * 2 ^ j)" by simp
  have "rne (x / ulp x) = m * 2 ^ j" by (simp only: q rne_of_int)
  then have "dbl x = ulp x * real_of_int (m * 2 ^ j)" using x0 by (simp add: dbl_def)
  then have "dbl x = x" using xe by simp
  then show ?thesis by (simp add: x_def)
qed

lemma dbl_of_int: "\<bar>m\<bar> < 2 ^ 53 \<Longrightarrow> dbl (real_of_int m) = real_of_int m"
  using dbl_exact [of m 0] by simp

text \<open>Rounding to nearest moves a positive number by at most half a unit in the last place.\<close>

lemma dbl_upper:
  assumes "0 < x"
  shows "dbl x \<le> x * (1 + 1 / 2 ^ 53)"
proof -
  have "real_of_int (rne (x / ulp x)) \<le> x / ulp x + 1 / 2"
    using rne_near [of "x / ulp x"] by linarith
  then have "ulp x * real_of_int (rne (x / ulp x)) \<le> ulp x * (x / ulp x + 1 / 2)"
    by (simp only: mult_le_cancel_left_pos ulp_pos)
  moreover have "ulp x * (x / ulp x + 1 / 2) = x + ulp x / 2" by (simp add: field_simps)
  ultimately have a: "dbl x \<le> x + ulp x / 2" using assms by (simp add: dbl_def)
  have "ulp x * 2 ^ 52 \<le> x" using mant_bounds(1) [OF assms] by (simp add: pos_le_divide_eq mult.commute)
  then have "ulp x / 2 \<le> x / 2 ^ 53" by simp
  then show ?thesis using a by (simp add: algebra_simps)
qed

lemma rne_unique: "\<bar>y - real_of_int m\<bar> < 1 / 2 \<Longrightarrow> rne y = m"
proof -
  assume a: "\<bar>y - real_of_int m\<bar> < 1 / 2"
  show ?thesis
  proof (cases "real_of_int m \<le> y")
    case True
    then have "\<lfloor>y\<rfloor> = m" using a by (simp add: floor_eq_iff)
    then show ?thesis using a True by (simp add: rne_def Let_def)
  next
    case False
    then have "\<lfloor>y\<rfloor> = m - 1" using a by (simp add: floor_eq_iff)
    then show ?thesis using a False by (simp add: rne_def Let_def)
  qed
qed

text \<open>The double nearest to a positive number, from its mantissa.\<close>

lemma dbl_eq:
  assumes "2 ^ 52 \<le> x * 2 ^ k" "x * 2 ^ k < 2 ^ 53" "\<bar>x * 2 ^ k - real_of_int m\<bar> < 1 / 2"
  shows "dbl x = real_of_int m / 2 ^ k"
proof -
  have pk: "(0 :: real) < 2 ^ k" by simp
  have x: "0 < x" using assms(1) pk by (smt (verit) mult_nonpos_nonneg zero_less_power)
  have p1: "2 powr real_of_int (52 - int k) = 2 ^ 52 / 2 ^ k"
    by (simp add: powr_diff powr_realpow)
  have p2: "2 powr real_of_int (52 - int k + 1) = 2 ^ 53 / 2 ^ k"
    by (simp add: powr_diff powr_add powr_realpow)
  have "2 ^ 52 / 2 ^ k \<le> x" using assms(1) pk by (simp add: pos_divide_le_eq)
  moreover have "x < 2 ^ 53 / 2 ^ k" using assms(2) pk by (simp add: pos_less_divide_eq)
  ultimately have "expo x = 52 - int k"
    using x by (intro expo_unique) (simp_all only: p1 p2 abs_of_pos)
  then have u: "ulp x = 1 / 2 ^ k"
    by (simp add: ulp_def powr_minus powr_realpow divide_inverse)
  then have "x / ulp x = x * 2 ^ k" by simp
  then have "rne (x / ulp x) = m" using rne_unique [OF assms(3)] by simp
  then show ?thesis using x u by (simp add: dbl_def)
qed

text \<open>The duration of 5 samples at 44100 Hz, and the products of the rate with it and
  with the double below it.\<close>

lemma five_samples:
  "dbl (5 / 44100) = 8365870328212949 / 2 ^ 66"
  "dbl (8365870328212948 / 2 ^ 66 * 44100) = 5"
  "dbl (8365870328212949 / 2 ^ 66 * 44100) = 5"
  using dbl_eq [of "5 / 44100" 66 8365870328212949]
    dbl_eq [of "8365870328212948 / 2 ^ 66 * 44100" 50 "5 * 2 ^ 50"]
    dbl_eq [of "8365870328212949 / 2 ^ 66 * 44100" 50 "5 * 2 ^ 50"]
  by simp_all

lemma dbl_dyadic:
  assumes "\<bar>m\<bar> < 2 ^ 53"
  shows "dbl (real_of_int m / 2 ^ k) = real_of_int m / 2 ^ k"
proof -
  have "2 powr real_of_int (- int k) = 1 / 2 ^ k"
    by (simp add: powr_minus powr_realpow divide_inverse)
  then show ?thesis using dbl_exact [OF assms, of "- int k"] by simp
qed

lemma floor_dbl_nonneg: "0 \<le> x \<Longrightarrow> 0 \<le> \<lfloor>dbl x\<rfloor>"
  using dbl_nonneg [of x] by simp

lemma floor_dbl_mono: "0 \<le> x \<Longrightarrow> x \<le> y \<Longrightarrow> \<lfloor>dbl x\<rfloor> \<le> \<lfloor>dbl y\<rfloor>"
  by (intro floor_mono dbl_mono)

text \<open>A time that does not exceed the duration is converted to a position that does
  not exceed the length.\<close>

lemma floor_dbl_le_length:
  assumes sr: "0 < sr" and n: "n \<le> 2 ^ 51" and t: "0 \<le> t" "t \<le> dbl (real n / sr)"
  shows "\<lfloor>dbl (t * sr)\<rfloor> \<le> int n"
proof (cases "n = 0")
  case True
  then have "t = 0" using t by simp
  then show ?thesis by simp
next
  case False
  define e :: real where "e = 1 / 2 ^ 53"
  have e: "0 < e" "(1 + e) * (1 + e) \<le> 1 + 3 * e" by (simp_all add: e_def)
  have npos: "0 < real n" using False by simp
  have q: "0 < real n / sr" using npos sr by simp
  have "t \<le> real n / sr * (1 + e)" using t(2) dbl_upper [OF q] by (simp add: e_def)
  then have "t * sr \<le> real n / sr * (1 + e) * sr" using sr by (simp only: mult_le_cancel_right_pos)
  also have "\<dots> = real n * (1 + e)" using sr by simp
  finally have p: "t * sr \<le> real n * (1 + e)" .
  have p0: "0 \<le> t * sr" using t(1) sr by simp
  have pos: "0 < real n * (1 + e)" using npos e(1) by simp
  have "dbl (t * sr) \<le> dbl (real n * (1 + e))" using p0 p by (rule dbl_mono)
  also have "\<dots> \<le> real n * (1 + e) * (1 + e)" using dbl_upper [OF pos] by (simp add: e_def)
  also have "\<dots> = real n * ((1 + e) * (1 + e))" by simp
  also have "\<dots> \<le> real n * (1 + 3 * e)" using e(2) npos by (simp only: mult_le_cancel_left_pos)
  also have "\<dots> = real n + real n * (3 * e)" by (simp add: algebra_simps)
  also have "\<dots> < real n + 1"
  proof -
    have "real n \<le> 2 ^ 51" using n of_nat_le_iff [of n "2 ^ 51", where 'a = real] by simp
    then have "real n * (3 * e) \<le> 2 ^ 51 * (3 * e)" using e(1) by simp
    also have "\<dots> < 1" by (simp add: e_def)
    finally show ?thesis by simp
  qed
  finally have "dbl (t * sr) < real_of_int (int n + 1)" by simp
  then have "\<lfloor>dbl (t * sr)\<rfloor> < int n + 1" by (simp only: floor_less_iff)
  then show ?thesis by simp
qed

subsection \<open>Finite samples\<close>

lemma is_fin_iff: "is_fin x \<longleftrightarrow> (\<exists>a. x = Fin a)"
  by (cases x) auto

lemma rd_fin:
  "finite_samples data \<Longrightarrow> 0 \<le> i \<Longrightarrow> i < int (length data) \<Longrightarrow> \<exists>a. rd data i = Fin a"
  by (simp add: rd_def finite_samples_def list_all_length is_fin_iff)

lemma calculateRMS_fin:
  assumes "finite_samples data" "0 \<le> s" "s < int (length data)" "0 < w"
  shows "\<exists>a. 0 \<le> a \<and> calculateRMS data s w = Fin a"
proof -
  define E where "E = min (s + w) (int (length data))"
  define body where "body = (\<lambda>i sum. jadd sum (jmul (rd data i) (rd data i)))"
  have "\<exists>a. 0 \<le> a \<and> for_loop s E 1 body (Fin 0) = Fin a"
  proof (rule for_loop_pres [where P = "\<lambda>t. \<exists>a. 0 \<le> a \<and> t = Fin a"])
    show "\<exists>a. 0 \<le> a \<and> Fin 0 = Fin (a::real)" by simp
    fix j t assume j: "s \<le> j" "j < E" and "\<exists>a. 0 \<le> a \<and> t = Fin (a::real)"
    then obtain a where a: "0 \<le> a" "t = Fin a" by blast
    obtain x where x: "rd data j = Fin x"
      using rd_fin [OF assms(1), of j] j assms(2) by (auto simp: E_def)
    show "\<exists>a. 0 \<le> a \<and> body j t = Fin a"
      using a x by (simp add: body_def)
  qed
  then obtain a where a: "0 \<le> a" "for_loop s E 1 body (Fin 0) = Fin a" by blast
  have pos: "0 < E - s" using assms by (simp add: E_def)
  have "calculateRMS data s w = jsqrt (jdiv (Fin a) (of_idx (E - s)))"
    using a by (simp add: calculateRMS_def Let_def E_def body_def)
  also have "\<dots> = Fin (sqrt (a / real_of_int (E - s)))"
  proof -
    have "0 \<le> a / real_of_int (E - s)" using pos a by simp
    then have "\<not> a / real_of_int (E - s) < 0" by linarith
    then show ?thesis using pos by (simp add: of_idx_def)
  qed
  finally show ?thesis using a pos by (intro exI [of _ "sqrt (a / real_of_int (E - s))"]) simp
qed

lemma averageAbsoluteDerivative_fin:
  assumes "finite_samples data" "0 \<le> s"
  shows "\<exists>a. 0 \<le> a \<and> averageAbsoluteDerivative data s w = Fin a"
proof -
  define E where "E = min (s + w) (int (length data) - 1)"
  define body where "body = (\<lambda>i sum. jadd sum (jabs (jsub (rd data (i + 1)) (rd data i))))"
  have "\<exists>a. 0 \<le> a \<and> for_loop s E 1 body (Fin 0) = Fin a"
  proof (rule for_loop_pres [where P = "\<lambda>t. \<exists>a. 0 \<le> a \<and> t = Fin a"])
    show "\<exists>a. 0 \<le> a \<and> Fin 0 = Fin (a::real)" by simp
    fix j t assume j: "s \<le> j" "j < E" and "\<exists>a. 0 \<le> a \<and> t = Fin (a::real)"
    then obtain a where a: "0 \<le> a" "t = Fin a" by blast
    obtain x where x: "rd data j = Fin x"
      using rd_fin [OF assms(1), of j] j assms(2) by (auto simp: E_def)
    obtain y where y: "rd data (j + 1) = Fin y"
      using rd_fin [OF assms(1), of "j + 1"] j assms(2) by (auto simp: E_def)
    show "\<exists>a. 0 \<le> a \<and> body j t = Fin a"
      using a x y by (simp add: body_def jsub_def)
  qed
  then obtain a where a: "0 \<le> a" "for_loop s E 1 body (Fin 0) = Fin a" by blast
  have pos: "0 < max 1 (E - s)" by simp
  have "averageAbsoluteDerivative data s w = jdiv (Fin a) (of_idx (max 1 (E - s)))"
    using a by (simp add: averageAbsoluteDerivative_def Let_def E_def body_def)
  also have "\<dots> = Fin (a / real_of_int (max 1 (E - s)))"
    using pos by (simp add: of_idx_def del: of_int_max)
  finally show ?thesis using a pos
    by (intro exI [of _ "a / real_of_int (max 1 (E - s))"]) (simp del: of_int_max)
qed

lemma mod_step_unique:
  assumes "(j - L) mod k = 0" "(c - L) mod k = 0" "j \<le> c" "c < j + k"
  shows "c = (j::int)"
proof -
  have "(c - j) mod k = ((c - L) - (j - L)) mod k" by simp
  also have "\<dots> = ((c - L) mod k - (j - L) mod k) mod k" by (rule mod_diff_eq [symmetric])
  also have "\<dots> = 0" using assms by simp
  finally have "(c - j) mod k = 0" .
  moreover have "(c - j) mod k = c - j" using assms by (intro mod_pos_pos_trivial) auto
  ultimately show ?thesis by simp
qed

subsection \<open>The stages of the optimizer\<close>

lemma select_loop_range:
  fixes body :: "int \<Rightarrow> int \<times> 'a \<Rightarrow> int \<times> 'a"
  assumes "\<And>i t. fst (body i t) = fst t \<or> fst (body i t) = i"
  shows "fst (for_loop lo hi step body (e, m)) = e
       \<or> (lo \<le> fst (for_loop lo hi step body (e, m)) \<and> fst (for_loop lo hi step body (e, m)) < hi)"
proof (rule for_loop_pres [where P = "\<lambda>t. fst t = e \<or> (lo \<le> fst t \<and> fst t < hi)"])
  show "fst (e, m) = e \<or> lo \<le> fst (e, m) \<and> fst (e, m) < hi" by simp
  fix j and t :: "int \<times> 'a" assume "lo \<le> j" "j < hi" "fst t = e \<or> lo \<le> fst t \<and> fst t < hi"
  then show "fst (body j t) = e \<or> lo \<le> fst (body j t) \<and> fst (body j t) < hi"
    using assms [of j t] by auto
qed

lemma findNearestZeroCrossing_range:
  "findNearestZeroCrossing data t r = t
   \<or> (max 0 (t - r) \<le> findNearestZeroCrossing data t r
      \<and> findNearestZeroCrossing data t r < min (int (length data) - 1) (t + r) - 1)"
  unfolding findNearestZeroCrossing_def Let_def
  by (rule select_loop_range) (auto split: prod.splits)

lemma findVolumeMatchedPoints_range:
  "snd (findVolumeMatchedPoints data s e r) = e
   \<or> (max (s + 1000) (e - r) \<le> snd (findVolumeMatchedPoints data s e r)
      \<and> snd (findVolumeMatchedPoints data s e r) < min (int (length data) - 1000) (e + r))"
  unfolding findVolumeMatchedPoints_def Let_def snd_conv
  by (rule select_loop_range) (auto split: prod.splits)

lemma findPhaseMatchedPoint_range:
  "findPhaseMatchedPoint data s e r = e
   \<or> (max (s + 1000) (e - r) \<le> findPhaseMatchedPoint data s e r
      \<and> findPhaseMatchedPoint data s e r < min (int (length data) - 1024) (e + r))"
  unfolding findPhaseMatchedPoint_def Let_def
  by (rule select_loop_range) (auto split: prod.splits)

lemma calculateRMS_NaN:
  assumes "rd data s = NaN" "s < int (length data)" "0 < w"
  shows "calculateRMS data s w = NaN"
proof -
  define body where "body = (\<lambda>i sum. jadd sum (jmul (rd data i) (rd data i)))"
  define E where "E = min (s + w) (int (length data))"
  have "s < E" using assms by (simp add: E_def)
  then have "for_loop s E 1 body (Fin 0) = for_loop (s + 1) E 1 body (body s (Fin 0))"
    by (subst for_loop.simps) simp
  moreover have "body s (Fin 0) = NaN" using assms(1) by (simp add: body_def)
  moreover have "for_loop (s + 1) E 1 body NaN = NaN"
    by (rule for_loop_pres [where P = "\<lambda>t. t = NaN"]) (simp_all add: body_def)
  ultimately show ?thesis by (simp add: calculateRMS_def Let_def body_def E_def)
qed

lemma findVolumeMatchedPoints_NaN:
  assumes "calculateRMS data s 2048 = NaN"
  shows "findVolumeMatchedPoints data s e r = (s, e)"
proof -
  have "for_loop lo hi 100
            (\<lambda>i (bestEndSample, minRMSDiff).
               let endRMS = calculateRMS data i 2048;
                   rmsDiff = jabs (jsub NaN endRMS)
               in if jlt rmsDiff minRMSDiff then (i, rmsDiff) else (bestEndSample, minRMSDiff))
            (e, PInf) = (e, PInf)" for lo hi
    by (rule for_loop_pres [where P = "\<lambda>t. t = (e, PInf)"]) (simp_all add: jsub_def)
  then show ?thesis using assms by (simp add: findVolumeMatchedPoints_def Let_def)
qed

lemma findVolumeMatchedPoints_finds:
  assumes fin: "finite_samples data" and s0: "0 \<le> s"
    and LH: "max (s + 1000) (e - r) < min (int (length data) - 1000) (e + r)"
  shows "max (s + 1000) (e - r) \<le> snd (findVolumeMatchedPoints data s e r)
       \<and> snd (findVolumeMatchedPoints data s e r) < min (int (length data) - 1000) (e + r)"
proof -
  define L where "L = max (s + 1000) (e - r)"
  define H where "H = min (int (length data) - 1000) (e + r)"
  define body where "body = (\<lambda>i (bestEndSample :: int, minRMSDiff).
               let endRMS = calculateRMS data i 2048;
                   rmsDiff = jabs (jsub (calculateRMS data s 2048) endRMS)
               in if jlt rmsDiff minRMSDiff then (i, rmsDiff) else (bestEndSample, minRMSDiff))"
  define res where "res = for_loop L H 100 body (e, PInf)"
  have fv: "findVolumeMatchedPoints data s e r = (s, fst res)"
    by (simp add: findVolumeMatchedPoints_def L_def H_def body_def res_def Let_def)
  have slen: "s < int (length data)" using LH by simp
  obtain a0 where a0: "calculateRMS data s 2048 = Fin a0"
    using calculateRMS_fin [OF fin s0 slen, of 2048] by auto
  have cand: "\<exists>d. jabs (jsub (calculateRMS data s 2048) (calculateRMS data c 2048)) = Fin d"
    if "L \<le> c" "c < H" for c
  proof -
    have "0 \<le> c" "c < int (length data)" using that s0 by (auto simp: L_def H_def)
    then obtain a where "calculateRMS data c 2048 = Fin a"
      using calculateRMS_fin [OF fin, of c 2048] by auto
    then show ?thesis using a0 by (simp add: jsub_def)
  qed
  define I where "I = (\<lambda>j (t :: int \<times> jsnum).
      if j = L then t = (e, PInf) else L \<le> fst t \<and> fst t < H)"
  have "\<exists>j. L \<le> j \<and> H \<le> j \<and> I j (for_loop L H 100 body (e, PInf))"
  proof (rule for_loop_inv)
    show "(0::int) < 100" by simp
    show "I L (e, PInf)" by (simp add: I_def)
    fix j t assume j: "L \<le> j" "j < H" and inv: "I j t"
    obtain b m where t: "t = (b, m)" by (cases t)
    obtain dj where dj: "jabs (jsub (calculateRMS data s 2048) (calculateRMS data j 2048)) = Fin dj"
      using cand [OF j] by blast
    show "I (j + 100) (body j t)"
    proof (cases "j = L")
      case True
      then have "m = PInf" using inv by (simp add: I_def t)
      then have "body j t = (j, Fin dj)" using dj by (simp add: body_def t Let_def)
      then show ?thesis using j by (simp add: I_def)
    next
      case False
      then have "L \<le> b" "b < H" using inv by (auto simp: I_def t)
      then show ?thesis using j by (simp add: I_def body_def t Let_def)
    qed
  qed
  then obtain j where "L \<le> j" "H \<le> j" "I j res" by (auto simp: res_def)
  moreover have "L < H" using LH by (simp add: L_def H_def)
  ultimately have "L \<le> fst res \<and> fst res < H" by (auto simp: I_def)
  then show ?thesis unfolding fv L_def H_def by simp
qed

lemma rd_map_Fin: "0 \<le> j \<Longrightarrow> j < int (length xs) \<Longrightarrow> rd (map Fin xs) j = Fin (xs ! nat j)"
  by (simp add: rd_def)

lemma calculateRMS_sum:
  assumes "0 \<le> s" "s < int (length xs)" "0 < w"
  shows "calculateRMS (map Fin xs) s w
         = Fin (sqrt (sum_list (map (\<lambda>x. x * x)
               (take (nat (min (s + w) (int (length xs)) - s)) (drop (nat s) xs)))
             / real_of_int (min (s + w) (int (length xs)) - s)))"
proof -
  define E where "E = min (s + w) (int (length xs))"
  define body where "body = (\<lambda>i sum. jadd sum (jmul (rd (map Fin xs) i) (rd (map Fin xs) i)))"
  define S where "S = (\<lambda>j. sum_list (map (\<lambda>x. x * x) (take (nat (j - s)) (drop (nat s) xs))))"
  have sE: "s < E" "E \<le> int (length xs)" using assms by (simp_all add: E_def)
  have "for_loop s E 1 body (Fin 0) = Fin (S E)"
  proof (rule for_loop_unit [where I = "\<lambda>j t. t = Fin (S j)"])
    show "s \<le> E" using sE by simp
    show "Fin 0 = Fin (S s)" by (simp add: S_def)
    fix j t assume j: "s \<le> j" "j < E" and t: "t = Fin (S j)"
    have n: "nat (j + 1 - s) = Suc (nat (j - s))" using j by simp
    have lt: "nat (j - s) < length (drop (nat s) xs)" using j sE assms(1) by simp
    have "drop (nat s) xs ! nat (j - s) = xs ! nat j"
      using j sE assms(1) by (simp add: nat_diff_distrib)
    then have "S (j + 1) = S j + xs ! nat j * xs ! nat j"
      unfolding S_def n by (simp add: take_Suc_conv_app_nth [OF lt])
    moreover have "rd (map Fin xs) j = Fin (xs ! nat j)"
      using j sE assms(1) by (intro rd_map_Fin) simp_all
    ultimately show "body j t = Fin (S (j + 1))" using t by (simp add: body_def)
  qed
  then have "calculateRMS (map Fin xs) s w = jsqrt (jdiv (Fin (S E)) (of_idx (E - s)))"
    by (simp add: calculateRMS_def Let_def E_def body_def)
  also have "\<dots> = Fin (sqrt (S E / real_of_int (E - s)))"
  proof -
    have "0 \<le> S E" unfolding S_def by (intro sum_list_nonneg) auto
    then have "0 \<le> S E / real_of_int (E - s)" using sE by simp
    then have "\<not> S E / real_of_int (E - s) < 0" by linarith
    then show ?thesis using sE by (simp add: of_idx_def)
  qed
  finally show ?thesis by (simp add: S_def E_def)
qed

text \<open>On silence both norms are 0 and the correlation is 0 / 0.\<close>

lemma crossCorrelation_silence:
  assumes "0 \<le> a" "0 \<le> b"
  shows "crossCorrelation (replicate n (Fin 0)) a b w = NaN"
proof -
  define body where "body = (\<lambda>i (broke, correlation, norm1, norm2).
           if broke then (broke, correlation, norm1, norm2)
           else
             let idx1 = a + i;
                 idx2 = b + i
             in if idx1 \<ge> int (length (replicate n (Fin 0 :: jsnum)))
                   \<or> idx2 \<ge> int (length (replicate n (Fin 0 :: jsnum)))
                then (True, correlation, norm1, norm2)
                else
                  let val1 = rd (replicate n (Fin 0)) idx1;
                      val2 = rd (replicate n (Fin 0)) idx2
                  in (False, jadd correlation (jmul val1 val2),
                      jadd norm1 (jmul val1 val1), jadd norm2 (jmul val2 val2)))"
  have "snd (for_loop 0 w 1 body (False, Fin 0, Fin 0, Fin 0)) = (Fin 0, Fin 0, Fin 0)"
  proof (rule for_loop_pres [where P = "\<lambda>t. snd t = (Fin 0, Fin 0, Fin 0)"])
    show "snd (False, Fin 0, Fin 0, Fin 0 :: jsnum) = (Fin 0 :: jsnum, Fin 0 :: jsnum, Fin 0)" by simp
    fix j and t :: "bool \<times> jsnum \<times> jsnum \<times> jsnum"
    assume j: "0 \<le> j" "j < w" and t: "snd t = (Fin 0, Fin 0, Fin 0)"
    obtain br where tt: "t = (br, Fin 0, Fin 0, Fin 0)" using t by (cases t) auto
    show "snd (body j t) = (Fin 0, Fin 0, Fin 0)"
      using assms j by (auto simp: body_def tt rd_def Let_def)
  qed
  then obtain br where "for_loop 0 w 1 body (False, Fin 0, Fin 0, Fin 0) = (br, Fin 0, Fin 0, Fin 0)"
    by (cases "for_loop 0 w 1 body (False, Fin 0, Fin 0, Fin 0)") auto
  then show ?thesis
    unfolding crossCorrelation_def body_def [symmetric] by (simp add: jinf_def)
qed

lemma length_removeDCOffset [simp]: "length (removeDCOffset data) = length data"
  by (simp add: removeDCOffset_def Let_def)

lemma getChannelData_wf:
  "wf_buffer st b \<Longrightarrow> length (getChannelData st b 0) = buf_length b"
  by (cases "channelData b")
     (auto simp: wf_buffer_def getChannelData_def numberOfChannels_def array_at_def)

lemma removeDCOffset_single_zero: "removeDCOffset [Fin 0] = [Fin 0]"
  by (simp add: removeDCOffset_def for_loop.simps rd_def of_idx_def EPSILON_def)

lemma findNearestZeroCrossing_short:
  "length data \<le> 2 \<Longrightarrow> findNearestZeroCrossing data t r = t"
  by (simp add: findNearestZeroCrossing_def Let_def for_loop_done)

lemma findVolumeMatchedPoints_short:
  "int (length data) \<le> s + 2000 \<Longrightarrow> findVolumeMatchedPoints data s e r = (s, e)"
  by (simp add: findVolumeMatchedPoints_def Let_def for_loop_done)

lemma findPhaseMatchedPoint_short:
  "int (length data) \<le> s + 2024 \<Longrightarrow> findPhaseMatchedPoint data s e r = e"
  by (simp add: findPhaseMatchedPoint_def Let_def for_loop_done)






lemma finite_samples_removeDCOffset:
  assumes "finite_samples data"
  shows "finite_samples (removeDCOffset data)"
proof -
  define body where "body = (\<lambda>i sum. jadd sum (rd data i))"
  have "\<exists>a. for_loop 0 (int (length data)) 1 body (Fin 0) = Fin a"
  proof (rule for_loop_pres [where P = "\<lambda>t. \<exists>a. t = Fin a"])
    show "\<exists>a. Fin 0 = Fin (a::real)" by simp
    fix j t assume j: "0 \<le> j" "j < int (length data)" and "\<exists>a. t = Fin (a::real)"
    then obtain a where a: "t = Fin a" by blast
    obtain x where "rd data j = Fin x" using rd_fin [OF assms j] by blast
    then show "\<exists>a. body j t = Fin a" using a by (simp add: body_def)
  qed
  then obtain a where a: "for_loop 0 (int (length data)) 1 body (Fin 0) = Fin a" by blast
  have "max 1 (int (length data)) \<noteq> 0" by simp
  then have "jdiv (Fin a) (of_idx (max 1 (int (length data))))
        = Fin (a / real_of_int (max 1 (int (length data))))"
    by (simp add: of_idx_def del: of_int_max)
  moreover have "finite_samples (map (\<lambda>x. jsub x (Fin m)) data)" for m
    using assms by (auto simp: finite_samples_def list_all_length is_fin_iff jsub_def)
  ultimately show ?thesis
    using assms a unfolding removeDCOffset_def Let_def body_def [symmetric] by simp
qed

text \<open>A channel of one small positive value: the mean is below the DC threshold and
  no pair of samples is a zero crossing.\<close>

lemma removeDCOffset_quiet:
  assumes "0 < n" "0 \<le> c" "c < 1 / 1000000"
  shows "removeDCOffset (replicate n (Fin c)) = replicate n (Fin c)"
proof -
  define body where "body = (\<lambda>i sum. jadd sum (rd (replicate n (Fin c)) i))"
  have "for_loop 0 (int n) 1 body (Fin 0) = Fin (real_of_int (int n) * c)"
  proof (rule for_loop_unit [where I = "\<lambda>j t. t = Fin (real_of_int j * c)"])
    show "0 \<le> int n" by simp
    show "Fin 0 = Fin (real_of_int 0 * c)" by simp
    fix j t assume j: "0 \<le> j" "j < int n" and t: "t = Fin (real_of_int j * c)"
    have "rd (replicate n (Fin c)) j = Fin c" using j by (simp add: rd_def)
    then show "body j t = Fin (real_of_int (j + 1) * c)" using t by (simp add: body_def algebra_simps)
  qed
  moreover have "max 1 (int n) = int n" using assms(1) by simp
  ultimately have "jdiv (for_loop 0 (int n) 1 body (Fin 0)) (of_idx (max 1 (int n))) = Fin c"
    using assms(1) by (simp add: of_idx_def)
  then show ?thesis
    using assms(2,3) unfolding removeDCOffset_def Let_def body_def [symmetric]
    by (simp add: EPSILON_def)
qed

lemma findNearestZeroCrossing_quiet:
  assumes "0 < c"
  shows "findNearestZeroCrossing (replicate n (Fin c)) t r = t"
proof -
  have nocross: "\<not> is_crossing (rd (replicate n (Fin c)) i) (rd (replicate n (Fin c)) (i + 1))"
    if "max 0 (t - r) \<le> i" "i < min (int (length (replicate n (Fin c))) - 1) (t + r) - 1" for i
  proof -
    have "0 \<le> i" "i + 1 < int n" using that by auto
    then have "rd (replicate n (Fin c)) i = Fin c" "rd (replicate n (Fin c)) (i + 1) = Fin c"
      by (simp_all add: rd_def)
    then show ?thesis using assms by (simp add: is_crossing_def jge_def)
  qed
  show ?thesis
    unfolding findNearestZeroCrossing_def Let_def
    by (rule for_loop_pres [where P = "\<lambda>s. fst s = t"]) (simp_all add: split_def nocross)
qed

text \<open>The optimizer, when the buffer has a channel, as the chain of its stages.\<close>

lemma optimizeLoopPoints_stages:
  fixes st b lp req
  defines "data \<equiv> removeDCOffset (getChannelData st b 0)"
  defines "s1 \<equiv> findNearestZeroCrossing data \<lfloor>dbl (lp_start lp * sampleRate b)\<rfloor> 2000"
  defines "e1 \<equiv> findNearestZeroCrossing data \<lfloor>dbl (lp_end lp * sampleRate b)\<rfloor> 2000"
  defines "e2 \<equiv> snd (findVolumeMatchedPoints data s1 e1 5000)"
  defines "e3 \<equiv> findNearestZeroCrossing data e2 500"
  defines "e4 \<equiv> findPhaseMatchedPoint data s1 e3 2000"
  defines "e5 \<equiv> findNearestZeroCrossing data e4 200"
  assumes "1 \<le> numberOfChannels b"
  shows "optimizeLoopPoints st b lp req
       = Inr \<lparr>lp_start = dbl (real_of_int s1 / sampleRate b),
              lp_end = dbl (real_of_int e5 / sampleRate b),
              startSample = s1, endSample = e5,
              crossfadeDuration =
                getAdaptiveCrossfadeDuration data s1 e5 (Fin (sampleRate b)) req\<rparr>"
  using assms by (simp add: optimizeLoopPoints_def Let_def)

lemma optimizeLoopPoints_quiet:
  assumes c: "0 < c" "c < 1 / 1000000" and n: "0 < n" "n \<le> 2000"
    and s: "0 \<le> \<lfloor>dbl (a * sr)\<rfloor>"
  shows "optimizeLoopPoints [replicate n (Fin c)]
           \<lparr>sampleRate = sr, buf_length = n, channelData = [0]\<rparr>
           \<lparr>lp_start = a, lp_end = b\<rparr> req
       = Inr \<lparr>lp_start = dbl (real_of_int \<lfloor>dbl (a * sr)\<rfloor> / sr),
              lp_end = dbl (real_of_int \<lfloor>dbl (b * sr)\<rfloor> / sr),
              startSample = \<lfloor>dbl (a * sr)\<rfloor>, endSample = \<lfloor>dbl (b * sr)\<rfloor>,
              crossfadeDuration =
                getAdaptiveCrossfadeDuration (replicate n (Fin c)) \<lfloor>dbl (a * sr)\<rfloor>
                  \<lfloor>dbl (b * sr)\<rfloor> (Fin sr) req\<rparr>"
proof -
  have q: "removeDCOffset (replicate n (Fin c)) = replicate n (Fin c)"
    using removeDCOffset_quiet [of n c] c n by simp
  have "int n \<le> \<lfloor>dbl (a * sr)\<rfloor> + 2000" using n s by linarith
  then have "int (length (replicate n (Fin c))) \<le> \<lfloor>dbl (a * sr)\<rfloor> + 2000"
    by (simp only: length_replicate)
  then show ?thesis
    by (simp add: optimizeLoopPoints_def getChannelData_def numberOfChannels_def array_at_def
      q findNearestZeroCrossing_quiet [OF c(1)] findVolumeMatchedPoints_short
      findPhaseMatchedPoint_short Let_def)
qed

subsection \<open>The PCM encoder\<close>

lemma interleave_index:
  fixes n :: nat
  assumes "c < n"
  shows "(i * n + c) mod n = c" "(i * n + c) div n = i"
  using assms by auto

lemma interleaveChannels_nth:
  assumes wf: "wf_buffer st b"
  shows "length (interleaveChannels st b) = buf_length b * numberOfChannels b
    \<and> (\<forall>i c. i < buf_length b \<longrightarrow> c < numberOfChannels b \<longrightarrow>
         interleaveChannels st b ! (i * numberOfChannels b + c)
           = rd (getChannelData st b c) (int i))"
proof -
  define n where "n = numberOfChannels b"
  define len where "len = buf_length b"
  define channels where "channels = map (getChannelData st b) [0..<n]"
  define target where "target = (\<lambda>k. rd (getChannelData st b (k mod n)) (int (k div n)))"
  define step where "step = (\<lambda>(i :: int) (channel :: int) (t :: nat \<times> jsnum list).
     case t of (index, result) \<Rightarrow>
                 (index + 1, result[index := rd (channels ! nat channel) i]))"
  define inner where "inner = (\<lambda>i. for_loop 0 (int n) 1 (step i))"
  define K where "K = (\<lambda>(m :: nat) (t :: nat \<times> jsnum list).
      fst t = m \<and> length (snd t) = len * n \<and> (\<forall>k < m. snd t ! k = target k))"
  have inner_step: "K (nat (j + 1) * n) (inner j t)"
    if j: "0 \<le> j" "j < int len" and Jt: "K (nat j * n) t" for j t
  proof -
    have "nat j < len" using j by simp
    then have room: "nat j * n + n \<le> len * n"
      by (metis Suc_leI mult_Suc mult_le_mono1 add.commute)
    have "K (nat j * n + nat (int n)) (inner j t)"
      unfolding inner_def
    proof (rule for_loop_unit [where I = "\<lambda>c. K (nat j * n + nat c)"])
      show "(0::int) \<le> int n" by simp
      show "K (nat j * n + nat 0) t" using Jt by simp
      fix c and u :: "nat \<times> jsnum list"
      assume c: "0 \<le> c" "c < int n" and Ku: "K (nat j * n + nat c) u"
      obtain index result where u: "u = (index, result)" by (cases u)
      have idx: "index = nat j * n + nat c" and lenr: "length result = len * n"
        and old: "\<And>k. k < index \<Longrightarrow> result ! k = target k"
        using Ku by (auto simp: K_def u)
      have cn: "nat c < n" using c by simp
      have inb: "index < length result" using idx lenr cn room by simp
      have ch: "channels ! nat c = getChannelData st b (nat c)"
        using cn by (simp add: channels_def)
      have tgt: "target index = rd (getChannelData st b (nat c)) j"
        using interleave_index [OF cn, of "nat j"] j by (simp add: target_def idx)
      have new: "(result[index := rd (channels ! nat c) j]) ! k = target k"
        if "k < index + 1" for k
        using that old inb ch tgt by (cases "k = index") (auto simp: nth_list_update)
      have "nat j * n + nat (c + 1) = index + 1" using c idx by simp
      then show "K (nat j * n + nat (c + 1)) (step j c u)"
        using new lenr by (simp add: K_def step_def u)
    qed
    moreover have "nat j * n + nat (int n) = nat (j + 1) * n"
      using j by (simp add: nat_add_distrib)
    ultimately show ?thesis by simp
  qed
  have res: "interleaveChannels st b
      = snd (for_loop 0 (int len) 1 inner (0, replicate (len * n) (Fin 0)))"
    by (simp add: interleaveChannels_def Let_def inner_def step_def channels_def n_def len_def)
  have "K (nat (int len) * n) (for_loop 0 (int len) 1 inner (0, replicate (len * n) (Fin 0)))"
  proof (rule for_loop_unit [where I = "\<lambda>j. K (nat j * n)"])
    show "(0::int) \<le> int len" by simp
    show "K (nat 0 * n) (0, replicate (len * n) (Fin 0))" by (simp add: K_def)
  qed (rule inner_step)
  then have fin: "length (interleaveChannels st b) = len * n"
    "\<And>k. k < len * n \<Longrightarrow> interleaveChannels st b ! k = target k"
    by (auto simp: K_def res)
  have "interleaveChannels st b ! (i * n + c) = rd (getChannelData st b c) (int i)"
    if "i < len" "c < n" for i c
  proof -
    have "i * n + n \<le> len * n" using that(1)
      by (metis Suc_leI mult_Suc mult_le_mono1 add.commute)
    then have "i * n + c < len * n" using that(2) by simp
    then show ?thesis using fin(2) interleave_index [OF that(2), of i] by (simp add: target_def)
  qed
  then show ?thesis using fin(1) by (simp add: n_def len_def)
qed

lemma length_setInt16 [simp]: "length (setInt16 view off x) = length view"
  by (simp add: setInt16_def Let_def)

lemma setInt16_other:
  "p \<noteq> off \<Longrightarrow> p \<noteq> off + 1 \<Longrightarrow> setInt16 view off x ! p = view ! p"
  by (simp add: setInt16_def Let_def)

lemma getInt16_setInt16_other:
  "off' + 1 < off \<or> off + 1 < off' \<Longrightarrow> getInt16 (setInt16 view off x) off' = getInt16 view off'"
  by (auto simp: getInt16_def getUint16_def setInt16_other)

lemma getInt16_setInt16:
  assumes "off + 1 < length view" "- 32768 \<le> trunc y" "trunc y \<le> 32767"
  shows "getInt16 (setInt16 view off (Fin y)) off = trunc y"
proof -
  define u where "u = nat (trunc y mod 65536)"
  have u: "int u = trunc y mod 65536" by (simp add: u_def)
  have "getUint16 (setInt16 view off (Fin y)) off = u mod 256 + 256 * (u div 256)"
    using assms(1) by (simp add: getUint16_def setInt16_def Let_def u_def)
  also have "\<dots> = u" by simp
  finally have g: "getUint16 (setInt16 view off (Fin y)) off = u" .
  show ?thesis
  proof (cases "trunc y < 0")
    case True
    then have "(trunc y + 65536) mod 65536 = trunc y + 65536"
      using assms(2) by (intro mod_pos_pos_trivial) auto
    moreover have "(trunc y + 65536) mod 65536 = trunc y mod 65536" by simp
    ultimately have "trunc y mod 65536 = trunc y + 65536" by simp
    then show ?thesis using g u True assms(2) by (simp add: getInt16_def)
  next
    case False
    then have "trunc y mod 65536 = trunc y"
      using assms(3) by (simp add: mod_pos_pos_trivial)
    then show ?thesis using g u False assms(3) by (simp add: getInt16_def)
  qed
qed

lemma payload_loop:
  fixes enc :: "int \<Rightarrow> jsnum" and view0 :: bytes and n :: nat
  defines "res \<equiv> snd (for_loop 0 (int n) 1
     (\<lambda>i (offset, view). (offset + 2, setInt16 view offset (enc i))) (44, view0))"
  assumes len: "length view0 = 44 + 2 * n"
  shows "length res = length view0 \<and> (\<forall>p<44. res ! p = view0 ! p)
       \<and> (\<forall>k<n. \<forall>y. enc (int k) = Fin y \<longrightarrow> - 32768 \<le> trunc y \<longrightarrow> trunc y \<le> 32767
            \<longrightarrow> getInt16 res (44 + 2 * k) = trunc y)"
proof -
  define body where "body = (\<lambda>(i :: int) (t :: nat \<times> bytes).
      case t of (offset, view) \<Rightarrow> (offset + 2, setInt16 view offset (enc i)))"
  define P where "P = (\<lambda>(i :: int) (t :: nat \<times> bytes).
      fst t = 44 + 2 * nat i \<and> length (snd t) = length view0
      \<and> (\<forall>p<44. snd t ! p = view0 ! p)
      \<and> (\<forall>k<nat i. \<forall>y. enc (int k) = Fin y \<longrightarrow> - 32768 \<le> trunc y \<longrightarrow> trunc y \<le> 32767
            \<longrightarrow> getInt16 (snd t) (44 + 2 * k) = trunc y))"
  have "P (int n) (for_loop 0 (int n) 1 body (44, view0))"
  proof (rule for_loop_unit)
    show "(0::int) \<le> int n" by simp
    show "P 0 (44, view0)" by (simp add: P_def)
    fix j and t :: "nat \<times> bytes"
    assume j: "0 \<le> j" "j < int n" and Pt: "P j t"
    obtain offset view where t: "t = (offset, view)" by (cases t)
    have off: "offset = 44 + 2 * nat j" and lv: "length view = length view0"
      and hdr: "\<And>p. p < 44 \<Longrightarrow> view ! p = view0 ! p"
      and old: "\<And>k y. k < nat j \<Longrightarrow> enc (int k) = Fin y \<Longrightarrow> - 32768 \<le> trunc y
                 \<Longrightarrow> trunc y \<le> 32767 \<Longrightarrow> getInt16 view (44 + 2 * k) = trunc y"
      using Pt by (auto simp: P_def t)
    have inb: "offset + 1 < length view" using off lv len j by simp
    have "getInt16 (setInt16 view offset (enc j)) (44 + 2 * k) = trunc y"
      if k: "k < nat (j + 1)" and y: "enc (int k) = Fin y" "- 32768 \<le> trunc y" "trunc y \<le> 32767"
      for k y
    proof (cases "k = nat j")
      case True
      then have "enc j = Fin y" using y(1) j by simp
      then show ?thesis using getInt16_setInt16 [OF inb y(2,3)] True off by simp
    next
      case False
      then have "k < nat j" using k j by simp
      then show ?thesis using old [OF _ y] off by (simp add: getInt16_setInt16_other)
    qed
    moreover have "setInt16 view offset (enc j) ! p = view0 ! p" if "p < 44" for p
      using that hdr off by (simp add: setInt16_other)
    ultimately show "P (j + 1) (body j t)"
      using off lv j by (simp add: P_def body_def t nat_add_distrib)
  qed
  moreover have "res = snd (for_loop 0 (int n) 1 body (44, view0))"
    by (simp add: res_def body_def)
  ultimately show ?thesis by (simp add: P_def)
qed

lemma le32_value:
  "(u::nat) mod 256 + 256 * (u div 256 mod 256) + 65536 * (u div 65536 mod 256)
     + 16777216 * (u div 16777216) = u"
proof -
  have a: "u div 65536 = u div 256 div 256" by (simp add: div_mult2_eq)
  have b: "u div 16777216 = u div 256 div 256 div 256" by (simp add: div_mult2_eq)
  define x where "x = u div 256"
  define y where "y = x div 256"
  define z where "z = y div 256"
  have "u = 256 * x + u mod 256" by (simp add: x_def)
  moreover have "x = 256 * y + x mod 256" by (simp add: y_def)
  moreover have "y = 256 * z + y mod 256" by (simp add: z_def)
  ultimately have "u = u mod 256 + 256 * (x mod 256) + 65536 * (y mod 256) + 16777216 * z"
    by linarith
  then show ?thesis unfolding a b x_def y_def z_def by simp
qed

lemma length_setUint8 [simp]: "length (setUint8 view off v) = length view"
  by (simp add: setUint8_def)

lemma length_setUint16 [simp]: "length (setUint16 view off v) = length view"
  by (simp add: setUint16_def Let_def)

lemma length_setUint32 [simp]: "length (setUint32 view off v) = length view"
  by (simp add: setUint32_def Let_def)

lemma writeString4:
  "writeString view off [a, b, c, d]
   = setUint8 (setUint8 (setUint8 (setUint8 view off (of_char a)) (off + 1) (of_char b))
       (off + 2) (of_char c)) (off + 3) (of_char d)"
  by (simp add: writeString_def for_loop.simps)

lemma getUint16_setUint16:
  "off + 1 < length view \<Longrightarrow> 0 \<le> v \<Longrightarrow> v < 65536
   \<Longrightarrow> getUint16 (setUint16 view off v) off = nat v"
  by (simp add: getUint16_def setUint16_def Let_def)

lemma getUint32_setUint32:
  assumes "off + 3 < length view" "0 \<le> v" "v < 4294967296"
  shows "getUint32 (setUint32 view off v) off = nat v"
proof -
  have "getUint32 (setUint32 view off v) off
      = nat v mod 256 + 256 * (nat v div 256 mod 256) + 65536 * (nat v div 65536 mod 256)
        + 16777216 * (nat v div 16777216)"
    using assms by (simp add: getUint32_def setUint32_def Let_def)
  then show ?thesis by (simp only: le32_value)
qed

lemma getUint16_setUint8: "p + 1 < off \<or> off < p \<Longrightarrow>
    getUint16 (setUint8 view off v) p = getUint16 view p"
  by (auto simp: getUint16_def setUint8_def)

lemma getUint16_setUint16_other: "p + 1 < off \<or> off + 1 < p \<Longrightarrow>
    getUint16 (setUint16 view off v) p = getUint16 view p"
  by (auto simp: getUint16_def setUint16_def Let_def)

lemma getUint16_setUint32_other: "p + 1 < off \<or> off + 3 < p \<Longrightarrow>
    getUint16 (setUint32 view off v) p = getUint16 view p"
  by (auto simp: getUint16_def setUint32_def Let_def)

lemma getUint32_setUint8: "p + 3 < off \<or> off < p \<Longrightarrow>
    getUint32 (setUint8 view off v) p = getUint32 view p"
  by (auto simp: getUint32_def setUint8_def)

lemma getUint32_setUint16_other: "p + 3 < off \<or> off + 1 < p \<Longrightarrow>
    getUint32 (setUint16 view off v) p = getUint32 view p"
  by (auto simp: getUint32_def setUint16_def Let_def)

lemma getUint32_setUint32_other: "p + 3 < off \<or> off + 3 < p \<Longrightarrow>
    getUint32 (setUint32 view off v) p = getUint32 view p"
  by (auto simp: getUint32_def setUint32_def Let_def)

lemmas header_other = getUint16_setUint8 getUint16_setUint16_other getUint16_setUint32_other
  getUint32_setUint8 getUint32_setUint16_other getUint32_setUint32_other

lemma get_fields_cong:
  "(\<And>p. p < 44 \<Longrightarrow> v ! p = w ! p) \<Longrightarrow> off + 1 < 44 \<Longrightarrow> getUint16 v off = getUint16 w off"
  "(\<And>p. p < 44 \<Longrightarrow> v ! p = w ! p) \<Longrightarrow> off + 3 < 44 \<Longrightarrow> getUint32 v off = getUint32 w off"
  by (simp_all add: getUint16_def getUint32_def)

lemma wav_header:
  fixes nch dataLength r :: nat and view0 :: bytes
  defines "hdr \<equiv> setUint32 (writeString (setUint16 (setUint16 (setUint32 (setUint32
      (setUint16 (setUint16 (setUint32 (writeString (writeString (setUint32
        (writeString view0 0 ''RIFF'') 4 (int (36 + dataLength))) 8 ''WAVE'') 12 ''fmt '')
        16 16) 20 1) 22 (int nch)) 24 (int r)) 28 (int (r * (nch * 2))))
        32 (int (nch * 2))) 34 16) 36 ''data'') 40 (int dataLength)"
  assumes len: "44 \<le> length view0" and nch: "nch * 2 < 65536" and r: "r < 4294967296"
    and dl: "dataLength < 4294967296"
  shows "length hdr = length view0" "getUint16 hdr 20 = 1" "getUint16 hdr 22 = nch"
    "getUint32 hdr 24 = r" "getUint16 hdr 32 = nch * 2" "getUint16 hdr 34 = 16"
    "getUint32 hdr 40 = dataLength"
  using len nch r dl unfolding hdr_def writeString4
  by (simp_all add: header_other getUint16_setUint16 getUint32_setUint32)

lemma rd_int: "k < length data \<Longrightarrow> rd data (int k) = data ! k"
  by (simp add: rd_def)

lemma trunc_of_nat [simp]: "trunc (real n) = int n"
  by (simp add: trunc_def)

lemma quantize_negative:
  assumes "- 1 \<le> cl" "cl < 0"
  shows "- 32768 \<le> trunc (cl * 32768)" "trunc (cl * 32768) \<le> 32767"
    "\<bar>real_of_int (trunc (cl * 32768)) / 32768 - cl\<bar> < 1 / 32768"
proof -
  define y where "y = - (cl * 32768)"
  have y: "0 < y" "y \<le> 32768" using assms by (auto simp: y_def)
  have t: "trunc (cl * 32768) = - \<lfloor>y\<rfloor>" using assms by (simp add: trunc_def y_def mult_less_0_iff)
  have f: "0 \<le> \<lfloor>y\<rfloor>" "\<lfloor>y\<rfloor> \<le> 32768" using y by (auto simp: floor_le_iff le_floor_iff)
  show "- 32768 \<le> trunc (cl * 32768)" "trunc (cl * 32768) \<le> 32767" using t f by linarith+
  have "real_of_int \<lfloor>y\<rfloor> \<le> y" "y < real_of_int \<lfloor>y\<rfloor> + 1" by linarith+
  moreover have "cl = - y / 32768" by (simp add: y_def)
  ultimately show "\<bar>real_of_int (trunc (cl * 32768)) / 32768 - cl\<bar> < 1 / 32768"
    unfolding t by (simp add: field_simps)
qed

lemma quantize_nonnegative:
  assumes "0 \<le> cl" "cl \<le> 1"
  shows "- 32768 \<le> trunc (cl * 32767)" "trunc (cl * 32767) \<le> 32767"
    "\<bar>real_of_int (trunc (cl * 32767)) / 32768 - cl\<bar> < 2 / 32768"
proof -
  define y where "y = cl * 32767"
  have y: "0 \<le> y" "y \<le> 32767" using assms by (auto simp: y_def)
  have t: "trunc (cl * 32767) = \<lfloor>y\<rfloor>" using y by (simp add: trunc_def y_def)
  have f: "0 \<le> \<lfloor>y\<rfloor>" "\<lfloor>y\<rfloor> \<le> 32767" using y by (auto simp: floor_le_iff le_floor_iff)
  show "- 32768 \<le> trunc (cl * 32767)" "trunc (cl * 32767) \<le> 32767" using t f by linarith+
  define q where "q = real_of_int \<lfloor>y\<rfloor>"
  have "q \<le> y" "y < q + 1" unfolding q_def by linarith+
  then have "q - cl * 32768 \<le> 0" "- 2 < q - cl * 32768"
    using assms by (auto simp: y_def)
  then have "\<bar>q / 32768 - cl\<bar> < 2 / 32768" by (simp add: field_simps abs_less_iff)
  then show "\<bar>real_of_int (trunc (cl * 32767)) / 32768 - cl\<bar> < 2 / 32768"
    unfolding t q_def .
qed

lemma audioBufferToWav_bytes:
  assumes wf: "wf_buffer st b"
    and nch: "numberOfChannels b * 2 < 65536"
    and sr: "sampleRate b = real r" "r < 4294967296"
    and dl: "2 * (buf_length b * numberOfChannels b) < 4294967296"
  shows "length (audioBufferToWav st b) = 44 + 2 * (buf_length b * numberOfChannels b)"
    and "getUint16 (audioBufferToWav st b) 20 = 1"
    and "getUint16 (audioBufferToWav st b) 22 = numberOfChannels b"
    and "getUint32 (audioBufferToWav st b) 24 = r"
    and "getUint16 (audioBufferToWav st b) 32 = numberOfChannels b * 2"
    and "getUint16 (audioBufferToWav st b) 34 = 16"
    and "getUint32 (audioBufferToWav st b) 40 = 2 * (buf_length b * numberOfChannels b)"
    and "\<And>i c v. i < buf_length b \<Longrightarrow> c < numberOfChannels b
          \<Longrightarrow> getChannelData st b c ! i = Fin v \<Longrightarrow>
          getInt16 (audioBufferToWav st b) (44 + 2 * (i * numberOfChannels b + c))
            = (if max (- 1) (min 1 v) < 0 then trunc (max (- 1) (min 1 v) * 32768)
               else trunc (max (- 1) (min 1 v) * 32767))"
proof -
  define n where "n = numberOfChannels b"
  define len where "len = buf_length b"
  define data where "data = interleaveChannels st b"
  define N where "N = len * n"
  have ldata: "length data = N"
    and ndata: "\<And>i c. i < len \<Longrightarrow> c < n \<Longrightarrow> data ! (i * n + c) = rd (getChannelData st b c) (int i)"
    using interleaveChannels_nth [OF wf] by (auto simp: data_def N_def n_def len_def)
  define view0 where "view0 = replicate (44 + N * 2) (0::nat)"
  define hdr where "hdr = setUint32 (writeString (setUint16 (setUint16 (setUint32 (setUint32
      (setUint16 (setUint16 (setUint32 (writeString (writeString (setUint32
        (writeString view0 0 ''RIFF'') 4 (int (36 + N * 2))) 8 ''WAVE'') 12 ''fmt '')
        16 16) 20 1) 22 (int n)) 24 (int r)) 28 (int (r * (n * 2))))
        32 (int (n * 2))) 34 16) 36 ''data'') 40 (int (N * 2))"
  define enc where "enc = (\<lambda>i. let sample = jmax (Fin (- 1)) (jmin (Fin 1) (rd data i))
      in (if jlt sample (Fin 0) then jmul sample (Fin 32768) else jmul sample (Fin 32767)))"
  define W where "W = snd (for_loop 0 (int N) 1
     (\<lambda>i (offset, view). (offset + 2, setInt16 view offset (enc i))) (44, hdr))"
  have "trunc (real r * (real n * 2)) = int (r * (n * 2))"
    using trunc_of_nat [of "r * (n * 2)"] by (simp del: trunc_of_nat)
  then have W: "audioBufferToWav st b = W"
    unfolding audioBufferToWav_def Let_def W_def hdr_def view0_def enc_def data_def
    by (simp add: n_def [symmetric] ldata [unfolded data_def] sr(1) cong: if_cong)
  have h: "length hdr = length view0" "getUint16 hdr 20 = 1" "getUint16 hdr 22 = n"
    "getUint32 hdr 24 = r" "getUint16 hdr 32 = n * 2" "getUint16 hdr 34 = 16"
    "getUint32 hdr 40 = N * 2"
    unfolding hdr_def
    by (rule wav_header; use nch sr(2) dl in \<open>simp add: view0_def n_def N_def len_def\<close>)+
  have lh: "length hdr = 44 + 2 * N" using h(1) by (simp add: view0_def)
  have pl: "length W = length hdr" "\<And>p. p < 44 \<Longrightarrow> W ! p = hdr ! p"
    "\<And>k y. k < N \<Longrightarrow> enc (int k) = Fin y \<Longrightarrow> - 32768 \<le> trunc y \<Longrightarrow> trunc y \<le> 32767
       \<Longrightarrow> getInt16 W (44 + 2 * k) = trunc y"
    using payload_loop [OF lh, of enc] unfolding W_def by blast+
  have fields: "getUint16 W 20 = 1" "getUint16 W 22 = n" "getUint32 W 24 = r"
    "getUint16 W 32 = n * 2" "getUint16 W 34 = 16" "getUint32 W 40 = N * 2"
    using h get_fields_cong [of W hdr, OF pl(2)] by simp_all
  have samples: "getInt16 W (44 + 2 * (i * n + c))
            = (if max (- 1) (min 1 v) < 0 then trunc (max (- 1) (min 1 v) * 32768)
               else trunc (max (- 1) (min 1 v) * 32767))"
    if i: "i < len" and c: "c < n" and v: "getChannelData st b c ! i = Fin v" for i c v
  proof -
    define cl where "cl = max (- 1) (min 1 v)"
    have cl: "- 1 \<le> cl" "cl \<le> 1" by (auto simp: cl_def)
    have "length (getChannelData st b c) = len"
      using wf c by (auto simp: wf_buffer_def getChannelData_def numberOfChannels_def
          array_at_def list_all_length n_def len_def)
    then have "rd (getChannelData st b c) (int i) = Fin v" using i v by (simp add: rd_int)
    then have d: "data ! (i * n + c) = Fin v" using ndata [OF i c] by simp
    have "i * n + n \<le> len * n" using i
      by (metis Suc_leI mult_Suc mult_le_mono1 add.commute)
    then have k: "i * n + c < N" using c by (simp add: N_def)
    then have rdk: "rd data (int (i * n + c)) = Fin v"
      using d ldata rd_int [of "i * n + c" data] by simp
    have sm: "jmax (Fin (- 1)) (jmin (Fin 1) (Fin v)) = Fin cl" by (simp add: cl_def)
    show ?thesis
    proof (cases "cl < 0")
      case True
      then have e: "enc (int (i * n + c)) = Fin (cl * 32768)"
        unfolding enc_def rdk Let_def sm by simp
      have "getInt16 W (44 + 2 * (i * n + c)) = trunc (cl * 32768)"
        using pl(3) [OF k e] quantize_negative(1,2) [OF cl(1) True] by simp
      then show ?thesis using True by (simp add: cl_def [symmetric])
    next
      case False
      then have e: "enc (int (i * n + c)) = Fin (cl * 32767)"
        unfolding enc_def rdk Let_def sm by simp
      have c0: "0 \<le> cl" using False by simp
      have "getInt16 W (44 + 2 * (i * n + c)) = trunc (cl * 32767)"
        using pl(3) [OF k e] quantize_nonnegative(1,2) [OF c0 cl(2)] by simp
      then show ?thesis using False by (simp add: cl_def [symmetric])
    qed
  qed
  show "length (audioBufferToWav st b) = 44 + 2 * (buf_length b * numberOfChannels b)"
    unfolding W using pl(1) lh by (simp add: N_def n_def len_def)
  show "getUint16 (audioBufferToWav st b) 20 = 1"
    "getUint16 (audioBufferToWav st b) 22 = numberOfChannels b"
    "getUint32 (audioBufferToWav st b) 24 = r"
    "getUint16 (audioBufferToWav st b) 32 = numberOfChannels b * 2"
    "getUint16 (audioBufferToWav st b) 34 = 16"
    "getUint32 (audioBufferToWav st b) 40 = 2 * (buf_length b * numberOfChannels b)"
    unfolding W using fields by (simp_all add: N_def n_def len_def)
  show "getInt16 (audioBufferToWav st b) (44 + 2 * (i * numberOfChannels b + c))
            = (if max (- 1) (min 1 v) < 0 then trunc (max (- 1) (min 1 v) * 32768)
               else trunc (max (- 1) (min 1 v) * 32767))"
    if "i < buf_length b" "c < numberOfChannels b" "getChannelData st b c ! i = Fin v" for i c v
    unfolding W using samples [of i c v] that by (simp only: n_def len_def)
qed

subsection \<open>The synthesis: frames and safe traces\<close>

lemma heap_load [simp]: "heap (snd (load a i s)) = heap s"
  by (simp add: load_def)

lemma trace_load [simp]: "trace (snd (load a i s)) = (a, i) # trace s"
  by (simp add: load_def)

lemma heap_store_at [simp]: "heap (store_at a i v s) = wr (heap s) a i v"
  by (simp add: store_at_def)

lemma trace_store_at [simp]: "trace (store_at a i v s) = (a, i) # trace s"
  by (simp add: store_at_def)

lemma shape_wr [simp]: "shape (wr h a i v) = shape h"
  by (auto simp: shape_def wr_def map_update list_update_same_conv)

lemma only_at_refl [simp]: "only_at a h h"
  by (simp add: only_at_def)

lemma only_at_trans: "only_at a h h' \<Longrightarrow> only_at a h' h'' \<Longrightarrow> only_at a h h''"
  by (auto simp: only_at_def shape_def dest: map_eq_imp_length_eq)

lemma wr_other [simp]: "a' \<noteq> a \<Longrightarrow> wr h a i v ! a' = h ! a'"
  by (simp add: wr_def)

lemma length_wr [simp]: "length (wr h a i v) = length h"
  by (simp add: wr_def)

lemma only_at_wr [simp]: "only_at a h h' \<Longrightarrow> only_at a h (wr h' a i v)"
  by (rule only_at_trans [where h' = h']) (simp_all add: only_at_def)

lemma only_at_length: "only_at a h h' \<Longrightarrow> length h' = length h"
  by (auto simp: only_at_def shape_def dest: map_eq_imp_length_eq)

lemma loop_only_at:
  assumes "only_at a h0 (heap s)"
    and "\<And>j t. only_at a h0 (heap t) \<Longrightarrow> only_at a h0 (heap (body j t))"
  shows "only_at a h0 (heap (for_loop lo hi step body s))"
  by (rule for_loop_pres [where P = "\<lambda>t. only_at a h0 (heap t)"]) (auto intro: assms)

lemma loop_acc_only_at:
  assumes "only_at a h0 (heap (snd p))"
    and "\<And>j t. only_at a h0 (heap (snd t)) \<Longrightarrow> only_at a h0 (heap (snd (body j t)))"
  shows "only_at a h0 (heap (snd (for_loop lo hi step body p)))"
  by (rule for_loop_pres [where P = "\<lambda>t. only_at a h0 (heap (snd t))"]) (auto intro: assms)

lemmas frame_loops = loop_only_at loop_acc_only_at

lemma removeDCOffsetInPlace_only_at:
  "only_at data h0 (heap s) \<Longrightarrow> only_at data h0 (heap (removeDCOffsetInPlace data s))"
  unfolding removeDCOffsetInPlace_def
  by (auto simp: Let_def split_def intro!: frame_loops)

lemma getSegmentMean_only_at:
  "only_at a h0 (heap s) \<Longrightarrow> only_at a h0 (heap (snd (getSegmentMean data st len s)))"
  unfolding getSegmentMean_def
  by (auto simp: Let_def split_def intro!: frame_loops)

lemma getAverageSlope_only_at:
  "only_at a h0 (heap s) \<Longrightarrow> only_at a h0 (heap (snd (getAverageSlope data st len s)))"
  unfolding getAverageSlope_def
  by (auto simp: Let_def split_def intro!: frame_loops)

lemma smoothLoopSeam_only_at:
  "only_at data h0 (heap s) \<Longrightarrow> only_at data h0 (heap (smoothLoopSeam data s))"
  unfolding smoothLoopSeam_def
  by (auto simp: Let_def split_def
      intro!: frame_loops getSegmentMean_only_at getAverageSlope_only_at)

lemma copyLoopSegment_only_at:
  "only_at out h0 (heap s) \<Longrightarrow> only_at out h0 (heap (copyLoopSegment inp out st len s))"
  unfolding copyLoopSegment_def
  by (auto simp: Let_def split_def intro!: frame_loops)

lemma blendTailIntoStart_only_at:
  "only_at out h0 (heap s) \<Longrightarrow> only_at out h0 (heap (blendTailIntoStart inp out st en sl s))"
  unfolding blendTailIntoStart_def
  by (auto simp: Let_def split_def intro!: frame_loops)

lemma crossfadeAtBeginning_only_at:
  "only_at out h0 (heap s) \<Longrightarrow> only_at out h0 (heap (crossfadeAtBeginning inp out en fl u s))"
  unfolding crossfadeAtBeginning_def
  by (auto simp: Let_def split_def intro!: frame_loops)

lemma crossfadeAtEnd_only_at:
  "only_at out h0 (heap s) \<Longrightarrow> only_at out h0 (heap (crossfadeAtEnd inp out st len fl u s))"
  unfolding crossfadeAtEnd_def
  by (auto simp: Let_def split_def intro!: frame_loops)

lemma preBlendStartIntoTail_only_at:
  "only_at out h0 (heap s) \<Longrightarrow> only_at out h0 (heap (preBlendStartIntoTail inp out st len sl s))"
  unfolding preBlendStartIntoTail_def
  by (auto simp: Let_def split_def intro!: frame_loops)

lemma crossfadeChannel_only_at:
  "only_at out h0 (heap s) \<Longrightarrow>
   only_at out h0 (heap (crossfadeChannel inp out st en len fl sl u s))"
  unfolding crossfadeChannel_def Let_def
  by (intro smoothLoopSeam_only_at removeDCOffsetInPlace_only_at preBlendStartIntoTail_only_at
      crossfadeAtEnd_only_at crossfadeAtBeginning_only_at blendTailIntoStart_only_at
      copyLoopSegment_only_at)

lemma safe_load:
  "safe_state sh s \<Longrightarrow> in_range sh (a, i) \<Longrightarrow> safe_state sh (snd (load a i s))"
  by (simp add: safe_state_def safe_def)

lemma safe_store_at:
  "safe_state sh s \<Longrightarrow> in_range sh (a, i) \<Longrightarrow> safe_state sh (store_at a i v s)"
  by (simp add: safe_state_def safe_def)

lemma safe_loop:
  assumes "safe_state sh s"
    and "\<And>j t. lo \<le> j \<Longrightarrow> j < hi \<Longrightarrow> safe_state sh t \<Longrightarrow> safe_state sh (body j t)"
  shows "safe_state sh (for_loop lo hi step body s)"
  by (rule for_loop_pres [where P = "safe_state sh"]) (auto intro: assms)

lemma safe_loop_acc:
  assumes "safe_state sh (snd p)"
    and "\<And>j t. lo \<le> j \<Longrightarrow> j < hi \<Longrightarrow> safe_state sh (snd t) \<Longrightarrow> safe_state sh (snd (body j t))"
  shows "safe_state sh (snd (for_loop lo hi step body p))"
  by (rule for_loop_pres [where P = "\<lambda>t. safe_state sh (snd t)"]) (auto intro: assms)

lemmas safe_intros = safe_loop safe_loop_acc safe_load safe_store_at

lemma array_length:
  "safe_state sh s \<Longrightarrow> a < length sh \<Longrightarrow> length (array_at (heap s) a) = sh ! a"
  by (auto simp: safe_state_def shape_def array_at_def)

lemma removeDCOffsetInPlace_safe:
  assumes "safe_state sh s" "data < length sh"
  shows "safe_state sh (removeDCOffsetInPlace data s)"
  unfolding removeDCOffsetInPlace_def array_length [OF assms]
  using assms by (auto simp: Let_def split_def in_range_def intro!: safe_intros)

lemma getSegmentMean_safe:
  assumes "safe_state sh s" "data < length sh"
  shows "safe_state sh (snd (getSegmentMean data st len s))"
  unfolding getSegmentMean_def array_length [OF assms]
  using assms by (auto simp: Let_def split_def in_range_def intro!: safe_intros)

lemma getAverageSlope_safe:
  assumes "safe_state sh s" "data < length sh" "0 \<le> st" "st + 2 \<le> int (sh ! data)"
  shows "safe_state sh (snd (getAverageSlope data st len s))"
  unfolding getAverageSlope_def array_length [OF assms(1,2)]
  using assms by (auto simp: Let_def split_def in_range_def intro!: safe_intros)

lemma floor_tenth_le: "0 \<le> n \<Longrightarrow> \<lfloor>dbl (real_of_int n * dbl 0.1)\<rfloor> \<le> n"
proof -
  assume n: "0 \<le> n"
  define c where "c = dbl 0.1"
  define p where "p = real_of_int n * c"
  have "dbl 0.1 \<le> 0.1 * (1 + 1 / 2 ^ 53)" by (rule dbl_upper) simp
  then have c: "c \<le> 1 / 2" by (simp add: c_def)
  have c0: "0 \<le> c" unfolding c_def by (rule dbl_nonneg) simp
  have p0: "0 \<le> p" using n c0 by (simp add: p_def)
  have "dbl p \<le> real_of_int n"
  proof (cases "p = 0")
    case True
    then show ?thesis using n by simp
  next
    case False
    then have pos: "0 < p" using p0 by simp
    have "real_of_int n * c \<le> real_of_int n * (1 / 2)"
      using c n by (intro mult_left_mono) simp_all
    then have half: "p * 2 \<le> real_of_int n" by (simp add: p_def)
    have "dbl p \<le> p * (1 + 1 / 2 ^ 53)" by (rule dbl_upper [OF pos])
    also have "\<dots> \<le> p * 2" using p0 by (intro mult_left_mono) simp_all
    finally show ?thesis using half by linarith
  qed
  then have "\<lfloor>dbl p\<rfloor> \<le> \<lfloor>real_of_int n\<rfloor>" by (rule floor_mono)
  then show ?thesis by (simp add: p_def c_def)
qed

lemma smoothLoopSeam_safe:
  assumes "safe_state sh s" "data < length sh"
  shows "safe_state sh (smoothLoopSeam data s)"
proof -
  define n where "n = int (sh ! data)"
  define sw where "sw = min 2048 \<lfloor>dbl (real_of_int n * dbl 0.1)\<rfloor>"
  have sw: "sw \<le> n" using floor_tenth_le [of n] by (simp add: sw_def n_def)
  show ?thesis
    unfolding smoothLoopSeam_def array_length [OF assms] n_def [symmetric] Let_def
      sw_def [symmetric]
    using assms sw
    by (auto simp: split_def in_range_def n_def [symmetric]
        intro!: safe_intros getSegmentMean_safe getAverageSlope_safe)
qed

lemma copyLoopSegment_safe:
  assumes "safe_state sh s" "inp < length sh" "out < length sh" "0 \<le> st"
    "st + len \<le> int (sh ! inp)" "len \<le> int (sh ! out)"
  shows "safe_state sh (copyLoopSegment inp out st len s)"
  unfolding copyLoopSegment_def
  using assms by (auto simp: Let_def split_def in_range_def intro!: safe_intros)

lemma blendTailIntoStart_safe:
  assumes "safe_state sh s" "inp < length sh" "out < length sh" "0 \<le> st" "st < en"
    "en \<le> int (sh ! inp)" "sl \<le> int (sh ! out)"
  shows "safe_state sh (blendTailIntoStart inp out st en sl s)"
  unfolding blendTailIntoStart_def
  using assms by (auto simp: Let_def split_def in_range_def intro!: safe_intros)

lemma crossfadeAtBeginning_safe:
  assumes "safe_state sh s" "inp < length sh" "out < length sh" "fl \<le> en"
    "en \<le> int (sh ! inp)" "fl \<le> int (sh ! out)"
  shows "safe_state sh (crossfadeAtBeginning inp out en fl u s)"
  unfolding crossfadeAtBeginning_def
  using assms by (auto simp: Let_def split_def in_range_def intro!: safe_intros)

lemma crossfadeAtEnd_safe:
  assumes "safe_state sh s" "inp < length sh" "out < length sh" "0 \<le> st"
    "st + fl \<le> int (sh ! inp)" "fl \<le> len" "len \<le> int (sh ! out)"
  shows "safe_state sh (crossfadeAtEnd inp out st len fl u s)"
  unfolding crossfadeAtEnd_def
  using assms by (auto simp: Let_def split_def in_range_def intro!: safe_intros)

lemma preBlendStartIntoTail_safe:
  assumes "safe_state sh s" "inp < length sh" "out < length sh" "0 \<le> st"
    "st + sl \<le> int (sh ! inp)" "sl \<le> len" "len \<le> int (sh ! out)"
  shows "safe_state sh (preBlendStartIntoTail inp out st len sl s)"
  unfolding preBlendStartIntoTail_def
  using assms by (auto simp: Let_def split_def in_range_def intro!: safe_intros)

lemma crossfadeChannel_safe:
  assumes s: "safe_state sh s" and a: "inp < length sh" "out < length sh"
    and r: "0 \<le> st" "st < en" "en \<le> int (sh ! inp)" "en - st \<le> int (sh ! out)"
    and f: "fl \<le> en - st" "sl \<le> fl"
  shows "safe_state sh (crossfadeChannel inp out st en (en - st) fl sl u s)"
  unfolding crossfadeChannel_def Let_def
  by (intro smoothLoopSeam_safe removeDCOffsetInPlace_safe preBlendStartIntoTail_safe
      crossfadeAtEnd_safe crossfadeAtBeginning_safe blendTailIntoStart_safe
      copyLoopSegment_safe; use assms in simp)

lemma createBuffer_Inr:
  assumes "createBuffer s channels len rate = Inr (nb, s1)"
  shows "1 \<le> channels" "1 \<le> len"
    "nb = \<lparr>sampleRate = rate, buf_length = nat len,
           channelData = [length (heap s)..<length (heap s) + channels]\<rparr>"
    "heap s1 = heap s @ replicate channels (replicate (nat len) (Fin 0))"
    "trace s1 = trace s"
  using assms by (auto simp: createBuffer_def split: if_splits)

lemma only_at_below:
  assumes "only_at out h h'" "n \<le> out" "n \<le> length h" "a < n"
  shows "h' ! a = h ! a"
  using assms by (auto simp: only_at_def)

lemma channel_loop_frame:
  fixes body :: "int \<Rightarrow> cf_state \<Rightarrow> cf_state"
  assumes len: "length (heap s1) = n + channels"
    and body: "\<And>j t. only_at (out j) (heap t) (heap (body j t))"
    and out: "\<And>j. 0 \<le> j \<Longrightarrow> j < int channels \<Longrightarrow> n \<le> out j"
  shows "length (heap (for_loop 0 (int channels) 1 body s1)) = n + channels
      \<and> (\<forall>a<n. heap (for_loop 0 (int channels) 1 body s1) ! a = heap s1 ! a)"
proof -
  show ?thesis
  proof (rule for_loop_pres [where P = "\<lambda>t. length (heap t) = n + channels
      \<and> (\<forall>a<n. heap t ! a = heap s1 ! a)"])
    show "length (heap s1) = n + channels \<and> (\<forall>a<n. heap s1 ! a = heap s1 ! a)"
      using len by simp
    fix j and t :: cf_state
    assume j: "0 \<le> j" "j < int channels"
      and t: "length (heap t) = n + channels \<and> (\<forall>a<n. heap t ! a = heap s1 ! a)"
    have "heap (body j t) ! a = heap t ! a" if "a < n" for a
      using only_at_below [OF body [of j t] out [OF j] _ that] t by simp
    moreover have "length (heap (body j t)) = length (heap t)"
      using only_at_length [OF body [of j t]] .
    ultimately show "length (heap (body j t)) = n + channels
        \<and> (\<forall>a<n. heap (body j t) ! a = heap s1 ! a)"
      using t by simp
  qed
qed

lemma fresh_channel:
  "0 \<le> j \<Longrightarrow> j < int channels \<Longrightarrow> [n..<n + channels] ! nat j = n + nat j"
  by simp

lemma applyCrossfade_frame:
  assumes "applyCrossfade s b lp = Inr (nb, s')"
  shows "length (heap s') = length (heap s) + numberOfChannels b
    \<and> (\<forall>a<length (heap s). heap s' ! a = heap s ! a)"
proof -
  define L where "L = endSample lp - startSample lp"
  obtain nb1 s1 where cb: "createBuffer s (numberOfChannels b) L (sampleRate b) = Inr (nb1, s1)"
    using assms by (auto simp: applyCrossfade_def Let_def L_def split: sum.splits)
  obtain fl where fl: "fadeLength_of (jmul (crossfadeDuration lp) (Fin (sampleRate b))) = Some fl"
    using assms cb by (auto simp: applyCrossfade_def Let_def L_def split: sum.splits option.splits)
  note c = createBuffer_Inr [OF cb]
  define body where "body = (\<lambda>channel s.
       crossfadeChannel (channelData b ! nat channel) (channelData nb1 ! nat channel)
         (startSample lp) (endSample lp) L fl (min fl \<lfloor>dbl (real_of_int L * dbl 0.2)\<rfloor>)
         (jge (crossfadeDuration lp) (Fin 0.075)) s)"
  have s': "s' = for_loop 0 (int (numberOfChannels b)) 1 body s1"
    using assms cb fl by (auto simp: applyCrossfade_def Let_def L_def body_def)
  have "length (heap (for_loop 0 (int (numberOfChannels b)) 1 body s1))
        = length (heap s) + numberOfChannels b
      \<and> (\<forall>a<length (heap s). heap (for_loop 0 (int (numberOfChannels b)) 1 body s1) ! a
      = heap s1 ! a)"
  proof (rule channel_loop_frame [where out = "\<lambda>j. channelData nb1 ! nat j"])
    show "length (heap s1) = length (heap s) + numberOfChannels b" using c(4) by simp
    show "only_at (channelData nb1 ! nat j) (heap t) (heap (body j t))" for j t
      unfolding body_def by (rule crossfadeChannel_only_at) simp
    show "length (heap s) \<le> channelData nb1 ! nat j" if "0 \<le> j" "j < int (numberOfChannels b)" for j
      using that by (simp add: c(3))
  qed
  then show ?thesis using c(4) by (simp add: s' nth_append)
qed

lemma createExtendedLoop_frame:
  assumes "createExtendedLoop s b d = Inr (nb, s')"
  shows "length (heap s') = length (heap s) + numberOfChannels b
    \<and> (\<forall>a<length (heap s). heap s' ! a = heap s ! a)"
proof -
  define T where "T = \<lfloor>dbl (d * sampleRate b)\<rfloor>"
  obtain nb1 s1 where cb: "createBuffer s (numberOfChannels b) T (sampleRate b) = Inr (nb1, s1)"
    using assms by (auto simp: createExtendedLoop_def Let_def T_def split: sum.splits)
  note c = createBuffer_Inr [OF cb]
  define body where "body = (\<lambda>channel.
                    for_loop 0 T 1
                      (\<lambda>i s.
                         let (v, s) =
                               (if int (buf_length b) = 0 then (NaN, s)
                                else load (channelData b ! nat channel)
                                       (i mod int (buf_length b)) s)
                         in store_at (channelData nb1 ! nat channel) i v s))"
  have s': "s' = for_loop 0 (int (numberOfChannels b)) 1 body s1"
    using assms cb by (auto simp: createExtendedLoop_def Let_def T_def body_def)
  have "length (heap (for_loop 0 (int (numberOfChannels b)) 1 body s1))
        = length (heap s) + numberOfChannels b
      \<and> (\<forall>a<length (heap s). heap (for_loop 0 (int (numberOfChannels b)) 1 body s1) ! a
      = heap s1 ! a)"
  proof (rule channel_loop_frame [where out = "\<lambda>j. channelData nb1 ! nat j"])
    show "length (heap s1) = length (heap s) + numberOfChannels b" using c(4) by simp
    show "only_at (channelData nb1 ! nat j) (heap t) (heap (body j t))" for j t
      unfolding body_def by (auto simp: Let_def split_def intro!: frame_loops)
    show "length (heap s) \<le> channelData nb1 ! nat j" if "0 \<le> j" "j < int (numberOfChannels b)" for j
      using that by (simp add: c(3))
  qed
  then show ?thesis using c(4) by (simp add: s' nth_append)
qed

lemma unchanged_channels:
  assumes wf: "wf_buffer h b"
    and fr: "length h' = length h + n \<and> (\<forall>a<length h. h' ! a = h ! a)"
  shows "\<forall>c<numberOfChannels b. getChannelData h' b c = getChannelData h b c"
proof (intro allI impI)
  fix c assume c: "c < numberOfChannels b"
  then have "channelData b ! c < length h"
    using wf by (auto simp: wf_buffer_def numberOfChannels_def list_all_length)
  then show "getChannelData h' b c = getChannelData h b c"
    using c fr by (simp add: getChannelData_def array_at_def)
qed

lemma applyCrossfade_returns:
  assumes "1 \<le> numberOfChannels b" "startSample lp < endSample lp"
    "fadeLength_of (jmul (crossfadeDuration lp) (Fin (sampleRate b))) = Some fl"
  shows "\<exists>nb s'. applyCrossfade s b lp = Inr (nb, s')"
  using assms by (simp add: applyCrossfade_def createBuffer_def Let_def)

lemma createExtendedLoop_returns:
  assumes "1 \<le> numberOfChannels b" "1 \<le> \<lfloor>dbl (d * sampleRate b)\<rfloor>"
  shows "\<exists>nb s'. createExtendedLoop s b d = Inr (nb, s')"
  using assms by (simp add: createExtendedLoop_def createBuffer_def Let_def)

lemma shape_nth: "a < length h \<Longrightarrow> shape h ! a = length (h ! a)"
  by (simp add: shape_def)

lemma applyCrossfade_safe:
  assumes wf: "wf_buffer (heap s) b" and tr: "trace s = []"
    and pts: "0 \<le> startSample lp" "startSample lp < endSample lp"
      "endSample lp \<le> int (buf_length b)"
    and fade: "fadeLength_of (jmul (crossfadeDuration lp) (Fin (sampleRate b))) = Some fl"
      "fl \<le> endSample lp - startSample lp"
  shows "\<exists>nb s'. applyCrossfade s b lp = Inr (nb, s')
      \<and> safe (shape (heap s')) (trace s')
      \<and> (\<forall>a\<in>set (channelData b). length (heap s' ! a) = buf_length b)
      \<and> (\<forall>a\<in>set (channelData nb).
            length (heap s' ! a) = nat (endSample lp - startSample lp))"
proof -
  define L where "L = endSample lp - startSample lp"
  define n where "n = numberOfChannels b"
  define n0 where "n0 = length (heap s)"
  have n: "1 \<le> n" using wf by (cases "channelData b") (auto simp: wf_buffer_def n_def numberOfChannels_def)
  have L: "1 \<le> L" using pts by (simp add: L_def)
  define nb where "nb = \<lparr>sampleRate = sampleRate b, buf_length = nat L,
           channelData = [n0..<n0 + n]\<rparr>"
  define s1 where "s1 = s\<lparr>heap := heap s @ replicate n (replicate (nat L) (Fin 0))\<rparr>"
  have cb: "createBuffer s n L (sampleRate b) = Inr (nb, s1)"
    using n L by (simp add: createBuffer_def nb_def s1_def n0_def)
  define body where "body = (\<lambda>channel s.
       crossfadeChannel (channelData b ! nat channel) (channelData nb ! nat channel)
         (startSample lp) (endSample lp) (endSample lp - startSample lp) fl
         (min fl \<lfloor>dbl (real_of_int L * dbl 0.2)\<rfloor>)
         (jge (crossfadeDuration lp) (Fin 0.075)) s)"
  define s' where "s' = for_loop 0 (int n) 1 body s1"
  have res: "applyCrossfade s b lp = Inr (nb, s')"
    using cb fade(1)
    by (simp add: applyCrossfade_def Let_def L_def [symmetric] n_def [symmetric] body_def s'_def)
  define sh where "sh = shape (heap s) @ replicate n (nat L)"
  have sh1: "shape (heap s1) = sh" by (simp add: s1_def sh_def shape_def)
  have lsh: "length sh = n0 + n" by (simp add: sh_def shape_def n0_def)
  have inp: "channelData b ! c < n0 \<and> sh ! (channelData b ! c) = buf_length b" if "c < n" for c
  proof -
    have "channelData b ! c < length (heap s)
        \<and> length (heap s ! (channelData b ! c)) = buf_length b"
      using wf that by (auto simp: wf_buffer_def n_def numberOfChannels_def list_all_length)
    then show ?thesis by (simp add: sh_def n0_def nth_append shape_def)
  qed
  have out: "sh ! (n0 + c) = nat L" if "c < n" for c
    using that by (simp add: sh_def n0_def nth_append shape_def)
  have "safe_state sh s'"
    unfolding s'_def
  proof (rule safe_loop)
    show "safe_state sh s1" using sh1 tr by (simp add: safe_state_def safe_def s1_def)
    fix j and t :: cf_state
    assume j: "0 \<le> j" "j < int n" and t: "safe_state sh t"
    have c: "nat j < n" using j by simp
    have o: "channelData nb ! nat j = n0 + nat j" using c by (simp add: nb_def)
    show "safe_state sh (body j t)"
      unfolding body_def o
    proof (rule crossfadeChannel_safe [OF t])
      show "channelData b ! nat j < length sh" using inp [OF c] lsh by simp
      show "n0 + nat j < length sh" using c lsh by simp
      show "0 \<le> startSample lp" "startSample lp < endSample lp" by (rule pts)+
      show "endSample lp \<le> int (sh ! (channelData b ! nat j))" using inp [OF c] pts(3) by simp
      show "endSample lp - startSample lp \<le> int (sh ! (n0 + nat j))"
        using out [OF c] L by (simp add: L_def)
      show "fl \<le> endSample lp - startSample lp" by (rule fade(2))
      show "min fl \<lfloor>dbl (real_of_int L * dbl 0.2)\<rfloor> \<le> fl" by simp
    qed
  qed
  then have fin: "shape (heap s') = sh" "safe sh (trace s')" by (auto simp: safe_state_def)
  have len': "length (heap s') = n0 + n"
    using fin(1) lsh by (metis length_map shape_def)
  have "length (heap s' ! a) = buf_length b" if "a \<in> set (channelData b)" for a
  proof -
    have "\<exists>c<length (channelData b). channelData b ! c = a"
      using that by (simp add: in_set_conv_nth)
    then obtain c where c: "c < n" "a = channelData b ! c"
      by (auto simp: n_def numberOfChannels_def)
    have "a < length (heap s')" using inp [OF c(1)] c(2) len' by simp
    then show ?thesis using shape_nth [of a "heap s'"] fin(1) inp [OF c(1)] c(2) by simp
  qed
  moreover have "length (heap s' ! a) = nat L" if "a \<in> set (channelData nb)" for a
  proof -
    have "n0 \<le> a" "a < n0 + n" using that by (auto simp: nb_def)
    then have "a - n0 < n" "a = n0 + (a - n0)" by auto
    then obtain c where c: "c < n" "a = n0 + c" by blast
    have "a < length (heap s')" using c len' by simp
    then show ?thesis using shape_nth [of a "heap s'"] fin(1) out [OF c(1)] c(2) by simp
  qed
  ultimately show ?thesis using res fin by (auto simp: L_def)
qed

lemma fade_noop:
  "fl \<le> 0 \<Longrightarrow> crossfadeAtBeginning inp out en fl u t = t"
  "fl \<le> 0 \<Longrightarrow> crossfadeAtEnd inp out st len fl u t = t"
  "sl \<le> 0 \<Longrightarrow> blendTailIntoStart inp out st en sl t = t"
  "sl \<le> 0 \<Longrightarrow> preBlendStartIntoTail inp out st len sl t = t"
  by (simp_all add: crossfadeAtBeginning_def crossfadeAtEnd_def blendTailIntoStart_def
      preBlendStartIntoTail_def for_loop_done)

lemma loop_mem:
  assumes "x \<in> set (trace s)"
    and "\<And>j t. x \<in> set (trace t) \<Longrightarrow> x \<in> set (trace (body j t))"
  shows "x \<in> set (trace (for_loop lo hi step body s))"
  by (rule for_loop_pres [where P = "\<lambda>t. x \<in> set (trace t)"]) (auto intro: assms)

lemma loop_acc_mem:
  assumes "x \<in> set (trace (snd p))"
    and "\<And>j t. x \<in> set (trace (snd t)) \<Longrightarrow> x \<in> set (trace (snd (body j t)))"
  shows "x \<in> set (trace (snd (for_loop lo hi step body p)))"
  by (rule for_loop_pres [where P = "\<lambda>t. x \<in> set (trace (snd t))"]) (auto intro: assms)

lemmas mem_loops = loop_mem loop_acc_mem

lemma removeDCOffsetInPlace_mem:
  "x \<in> set (trace s) \<Longrightarrow> x \<in> set (trace (removeDCOffsetInPlace data s))"
  unfolding removeDCOffsetInPlace_def
  by (auto simp: Let_def split_def intro!: mem_loops)

lemma getSegmentMean_mem:
  "x \<in> set (trace s) \<Longrightarrow> x \<in> set (trace (snd (getSegmentMean data st len s)))"
  unfolding getSegmentMean_def
  by (auto simp: Let_def split_def intro!: mem_loops)

lemma getAverageSlope_mem:
  "x \<in> set (trace s) \<Longrightarrow> x \<in> set (trace (snd (getAverageSlope data st len s)))"
  unfolding getAverageSlope_def
  by (auto simp: Let_def split_def intro!: mem_loops)

lemma smoothLoopSeam_mem:
  "x \<in> set (trace s) \<Longrightarrow> x \<in> set (trace (smoothLoopSeam data s))"
  unfolding smoothLoopSeam_def
  by (auto simp: Let_def split_def
      intro!: mem_loops getSegmentMean_mem getAverageSlope_mem)

lemma crossfadeAtBeginning_mem:
  "x \<in> set (trace s) \<Longrightarrow> x \<in> set (trace (crossfadeAtBeginning inp out en fl u s))"
  unfolding crossfadeAtBeginning_def
  by (auto simp: Let_def split_def intro!: mem_loops)

lemma crossfadeAtEnd_mem:
  "x \<in> set (trace s) \<Longrightarrow> x \<in> set (trace (crossfadeAtEnd inp out st len fl u s))"
  unfolding crossfadeAtEnd_def
  by (auto simp: Let_def split_def intro!: mem_loops)

lemma preBlendStartIntoTail_mem:
  "x \<in> set (trace s) \<Longrightarrow> x \<in> set (trace (preBlendStartIntoTail inp out st len sl s))"
  unfolding preBlendStartIntoTail_def
  by (auto simp: Let_def split_def intro!: mem_loops)

lemma crossfadeAtBeginning_first_read:
  assumes "0 < fl"
  shows "(inp, en - fl) \<in> set (trace (crossfadeAtBeginning inp out en fl u s))"
proof -
  define body where "body = (\<lambda>i s.
          let progress = jdiv (of_idx i) (of_idx (max 1 (fl - 1)));
              fadeInGain = getFadeInGain progress u;
              fadeOutGain = getFadeOutGain progress u;
              (endLoopSample, s) = load inp (en - fl + i) s;
              (startLoopSample, s) = load out i s
          in store_at out i
               (jadd (jmul fadeInGain startLoopSample) (jmul fadeOutGain endLoopSample)) s)"
  have "crossfadeAtBeginning inp out en fl u s = for_loop (0 + 1) fl 1 body (body 0 s)"
    unfolding crossfadeAtBeginning_def body_def [symmetric]
    using assms by (subst for_loop.simps) simp
  moreover have "(inp, en - fl) \<in> set (trace (for_loop (0 + 1) fl 1 body (body 0 s)))"
  proof (rule loop_mem)
    show "(inp, en - fl) \<in> set (trace (body 0 s))"
      by (simp add: body_def Let_def split_def)
    show "(inp, en - fl) \<in> set (trace (body j t))" if "(inp, en - fl) \<in> set (trace t)" for j t
      using that by (simp add: body_def Let_def split_def)
  qed
  ultimately show ?thesis by simp
qed

lemma crossfadeChannel_first_fade_read:
  assumes "0 < fl"
  shows "(inp, en - fl) \<in> set (trace (crossfadeChannel inp out st en len fl sl u s))"
  unfolding crossfadeChannel_def Let_def
  by (intro smoothLoopSeam_mem removeDCOffsetInPlace_mem preBlendStartIntoTail_mem
      crossfadeAtEnd_mem crossfadeAtBeginning_first_read assms)

text \<open>NaN in the output: an output channel that is all NaN stays so, since every write
  mixes the sample it replaces.\<close>

lemma jmul_NaN_right: "jmul x NaN = NaN"
  by (cases x) simp_all

lemma jadd_NaN_right: "jadd x NaN = NaN"
  by (cases x) simp_all

lemma fst_load: "fst (load a i s) = rd (array_at (heap s) a) i"
  by (simp add: load_def)

lemma rd_replicate_NaN: "rd (replicate n NaN) i = NaN"
proof (cases "0 \<le> i \<and> i < int n")
  case True
  then have "nat i < n" by linarith
  then show ?thesis using True by (simp add: rd_def)
next
  case False
  then show ?thesis by (auto simp: rd_def)
qed

lemma array_at_wr:
  "array_at (wr h a i v) a'
   = (if a' = a \<and> 0 \<le> i \<and> i < int (length (array_at h a))
      then (array_at h a)[nat i := v] else array_at h a')"
  by (auto simp: wr_def array_at_def)

lemma all_NaN_load: "all_NaN a n (snd (load a' i s)) = all_NaN a n s"
  by (simp add: all_NaN_def)

lemma all_NaN_store: "all_NaN a n s \<Longrightarrow> all_NaN a n (store_at a' i NaN s)"
  by (auto simp: all_NaN_def array_at_wr list_eq_iff_nth_eq nth_list_update)

lemma all_NaN_rd: "all_NaN a n s \<Longrightarrow> rd (array_at (heap s) a) i = NaN"
  by (simp add: all_NaN_def rd_replicate_NaN)

lemmas NaN_simps = jmul_NaN_right jadd_NaN_right fst_load all_NaN_load all_NaN_store all_NaN_rd

lemma loop_all_NaN:
  assumes "all_NaN a n s"
    and "\<And>j t. all_NaN a n t \<Longrightarrow> all_NaN a n (body j t)"
  shows "all_NaN a n (for_loop lo hi step body s)"
  by (rule for_loop_pres [where P = "\<lambda>t. all_NaN a n t"]) (auto intro: assms)

lemma loop_acc_all_NaN:
  assumes "all_NaN a n (snd p)"
    and "\<And>j t. all_NaN a n (snd t) \<Longrightarrow> all_NaN a n (snd (body j t))"
  shows "all_NaN a n (snd (for_loop lo hi step body p))"
  by (rule for_loop_pres [where P = "\<lambda>t. all_NaN a n (snd t)"]) (auto intro: assms)

lemmas NaN_loops = loop_all_NaN loop_acc_all_NaN

lemma crossfadeAtEnd_all_NaN:
  "all_NaN out n s \<Longrightarrow> all_NaN out n (crossfadeAtEnd inp out st len fl u s)"
  unfolding crossfadeAtEnd_def
  by (auto simp: Let_def split_def NaN_simps intro!: NaN_loops)

lemma preBlendStartIntoTail_all_NaN:
  "all_NaN out n s \<Longrightarrow> all_NaN out n (preBlendStartIntoTail inp out st len sl s)"
  unfolding preBlendStartIntoTail_def
  by (auto simp: Let_def split_def NaN_simps intro!: NaN_loops)

lemma removeDCOffsetInPlace_all_NaN:
  "all_NaN data n s \<Longrightarrow> all_NaN data n (removeDCOffsetInPlace data s)"
  unfolding removeDCOffsetInPlace_def
  by (auto simp: Let_def split_def jsub_def NaN_simps intro!: NaN_loops)

lemma getSegmentMean_all_NaN:
  "all_NaN a n s \<Longrightarrow> all_NaN a n (snd (getSegmentMean data st len s))"
  unfolding getSegmentMean_def
  by (auto simp: Let_def split_def NaN_simps intro!: NaN_loops)

lemma getAverageSlope_all_NaN:
  "all_NaN a n s \<Longrightarrow> all_NaN a n (snd (getAverageSlope data st len s))"
  unfolding getAverageSlope_def
  by (auto simp: Let_def split_def NaN_simps intro!: NaN_loops)

lemma smoothLoopSeam_all_NaN:
  "all_NaN data n s \<Longrightarrow> all_NaN data n (smoothLoopSeam data s)"
  unfolding smoothLoopSeam_def
  by (auto simp: Let_def split_def jsub_def NaN_simps
      intro!: NaN_loops getSegmentMean_all_NaN getAverageSlope_all_NaN)


lemma rd_update:
  "0 \<le> k \<Longrightarrow> 0 \<le> j \<Longrightarrow> rd (xs[nat j := v]) k
     = (if k = j \<and> j < int (length xs) then v else rd xs k)"
  by (auto simp: rd_def nth_list_update)

text \<open>When the fade is longer than the end position by the length of the output, every
  sample of the output is mixed with a read before the input.\<close>

lemma crossfadeAtBeginning_all_NaN:
  assumes len: "length (array_at (heap s) out) = n"
    and neg: "en - fl + int n \<le> 0" and cover: "int n \<le> fl"
  shows "all_NaN out n (crossfadeAtBeginning inp out en fl u s)"
proof -
  define body where "body = (\<lambda>i s.
          let progress = jdiv (of_idx i) (of_idx (max 1 (fl - 1)));
              fadeInGain = getFadeInGain progress u;
              fadeOutGain = getFadeOutGain progress u;
              (endLoopSample, s) = load inp (en - fl + i) s;
              (startLoopSample, s) = load out i s
          in store_at out i
               (jadd (jmul fadeInGain startLoopSample) (jmul fadeOutGain endLoopSample)) s)"
  define I where "I = (\<lambda>j (t :: cf_state). length (array_at (heap t) out) = n
      \<and> (\<forall>k. 0 \<le> k \<and> k < j \<and> k < int n \<longrightarrow> rd (array_at (heap t) out) k = NaN))"
  have "\<exists>j. 0 \<le> j \<and> fl \<le> j \<and> I j (for_loop 0 fl 1 body s)"
  proof (rule for_loop_inv)
    show "(0::int) < 1" by simp
    show "I 0 s" using len by (auto simp: I_def)
    fix j and t :: cf_state assume j: "0 \<le> j" "j < fl" and inv: "I j t"
    have l: "length (array_at (heap t) out) = n" using inv by (simp add: I_def)
    have v: "rd (array_at (heap t) inp) (en - fl + j) = NaN" if "j < int n"
      using that neg by (simp add: rd_def)
    have h: "array_at (heap (body j t)) out
        = (if j < int n
           then (array_at (heap t) out)[nat j := NaN] else array_at (heap t) out)"
      using j l v by (auto simp: body_def Let_def split_def array_at_wr NaN_simps)
    have "rd (array_at (heap (body j t)) out) k = NaN" if "0 \<le> k" "k < j + 1" "k < int n" for k
    proof (cases "k = j")
      case True
      then show ?thesis using that l j by (simp add: h rd_update)
    next
      case False
      then have "rd (array_at (heap t) out) k = NaN" using inv that by (simp add: I_def)
      then show ?thesis using that False j by (simp add: h rd_update)
    qed
    moreover have "length (array_at (heap (body j t)) out) = n" using l by (simp add: h)
    ultimately show "I (j + 1) (body j t)" by (simp add: I_def)
  qed
  then obtain j where j: "fl \<le> j" and Ij: "I j (for_loop 0 fl 1 body s)" by blast
  define t where "t = for_loop 0 fl 1 body s"
  have l: "length (array_at (heap t) out) = n"
    and a: "\<And>k. 0 \<le> k \<Longrightarrow> k < int n \<Longrightarrow> rd (array_at (heap t) out) k = NaN"
    using Ij j cover by (auto simp: I_def t_def)
  have "array_at (heap t) out ! i = NaN" if "i < n" for i
    using a [of "int i"] that l by (simp add: rd_def)
  then have "array_at (heap t) out = replicate n NaN"
    using l by (simp add: list_eq_iff_nth_eq)
  then show ?thesis
    unfolding all_NaN_def crossfadeAtBeginning_def body_def [symmetric] t_def [symmetric] .
qed

lemma only_at_array_length:
  "only_at a h h' \<Longrightarrow> length (array_at h' a') = length (array_at h a')"
  by (auto simp: only_at_def shape_def array_at_def dest: map_eq_imp_length_eq)
     (metis length_map nth_map)

lemma crossfadeChannel_all_NaN:
  assumes len: "length (array_at (heap s) out) = n"
    and neg: "en - fl + int n \<le> 0" and cover: "int n \<le> fl"
  shows "all_NaN out n (crossfadeChannel inp out st en len fl sl u s)"
proof -
  define s2 where "s2 = blendTailIntoStart inp out st en sl (copyLoopSegment inp out st len s)"
  have "only_at out (heap s) (heap s2)"
    unfolding s2_def by (intro blendTailIntoStart_only_at copyLoopSegment_only_at) simp
  then have "length (array_at (heap s2) out) = n"
    using len only_at_array_length [of out "heap s" "heap s2" out] by simp
  then have "all_NaN out n (crossfadeAtBeginning inp out en fl u s2)"
    using neg cover by (rule crossfadeAtBeginning_all_NaN)
  then show ?thesis
    unfolding crossfadeChannel_def Let_def s2_def
    by (intro smoothLoopSeam_all_NaN removeDCOffsetInPlace_all_NaN
        preBlendStartIntoTail_all_NaN crossfadeAtEnd_all_NaN)
qed

section \<open>Claims\<close>

subsection \<open>calculateRMS\<close>

text \<open>
  C9. The claim: \<^verbatim>\<open>calculateRMS\<close> clamps its window to the buffer and floors the
  denominator at 1, so it never divides by zero. The code divides by \<open>end - startSample\<close>
  as it is: for a start sample at the end of the buffer the window is empty, the
  division is 0/0 and the result is NaN. The sibling \<^verbatim>\<open>averageAbsoluteDerivative\<close>
  floors its denominator and returns 0 on the same input.
\<close>

theorem calculateRMS_divides_by_zero:
  "calculateRMS [Fin 0.5] 1 2048 = NaN \<and> averageAbsoluteDerivative [Fin 0.5] 1 2048 = Fin 0"
  by (simp add: calculateRMS_def averageAbsoluteDerivative_def for_loop_done of_idx_def
      jinf_def)

subsection \<open>findNearestZeroCrossing\<close>

text \<open>
  C3. The claim: a sign change within the search radius of the target makes
  \<^verbatim>\<open>findNearestZeroCrossing\<close> return the index of a crossing. The loop stops two
  positions early (\<open>i < end - 1\<close> with \<open>end\<close> already the last index), so the last pair
  of the buffer is never examined: in the buffer 1, 1, -1 the pair at index 1 changes
  sign, one sample from the target 0, and the function returns the target 0, where the
  pair 1, 1 is no crossing.
\<close>

theorem findNearestZeroCrossing_misses_last_pair:
  "is_crossing (rd [Fin 1, Fin 1, Fin (- 1)] 1) (rd [Fin 1, Fin 1, Fin (- 1)] 2)
   \<and> \<bar>1 - 0\<bar> \<le> (2000 :: int)
   \<and> findNearestZeroCrossing [Fin 1, Fin 1, Fin (- 1)] 0 2000 = 0
   \<and> \<not> is_crossing (rd [Fin 1, Fin 1, Fin (- 1)] 0) (rd [Fin 1, Fin 1, Fin (- 1)] 1)"
proof -
  have "for_loop 0 1 1 body s = body 0 s" for body :: "int \<Rightarrow> int \<times> jsnum \<Rightarrow> int \<times> jsnum" and s
    by (simp add: for_loop.simps [of 0] for_loop_done)
  then show ?thesis
    by (simp add: findNearestZeroCrossing_def is_crossing_def rd_def jge_def Let_def)
qed

subsection \<open>findPhaseMatchedPoint\<close>

text \<open>
  C5. The end sample returned by \<^verbatim>\<open>findPhaseMatchedPoint\<close> is the original end, or a
  candidate of the scan (in the range, a multiple of the step 50 from its start) whose
  correlation with the start window is not NaN: a NaN correlation fails the comparison
  \<open>correlation > maxCorrelation\<close> and is never selected.
\<close>

theorem findPhaseMatchedPoint_skips_NaN:
  "findPhaseMatchedPoint audioData s e r = e
   \<or> (max (s + 1000) (e - r) \<le> findPhaseMatchedPoint audioData s e r
      \<and> findPhaseMatchedPoint audioData s e r < min (int (length audioData) - 1024) (e + r)
      \<and> (findPhaseMatchedPoint audioData s e r - max (s + 1000) (e - r)) mod 50 = 0
      \<and> crossCorrelation audioData s (findPhaseMatchedPoint audioData s e r) 1024 \<noteq> NaN)"
proof -
  define L where "L = max (s + 1000) (e - r)"
  define H where "H = min (int (length audioData) - 1024) (e + r)"
  define body where "body = (\<lambda>i (bestEndSample :: int, maxCorrelation).
              let correlation = crossCorrelation audioData s i 1024
              in if jgt correlation maxCorrelation then (i, correlation)
                 else (bestEndSample, maxCorrelation))"
  define I where "I = (\<lambda>j (t :: int \<times> jsnum). (j - L) mod 50 = 0 \<and>
     (fst t = e \<or> (L \<le> fst t \<and> fst t < H \<and> (fst t - L) mod 50 = 0
        \<and> crossCorrelation audioData s (fst t) 1024 \<noteq> NaN)))"
  have res: "findPhaseMatchedPoint audioData s e r = fst (for_loop L H 50 body (e, NInf))"
    by (simp add: findPhaseMatchedPoint_def L_def H_def body_def Let_def)
  have "\<exists>j. L \<le> j \<and> H \<le> j \<and> I j (for_loop L H 50 body (e, NInf))"
  proof (rule for_loop_inv)
    show "(0::int) < 50" by simp
    show "I L (e, NInf)" by (simp add: I_def)
    fix j t assume j: "L \<le> j" "j < H" and inv: "I j t"
    obtain b m where t: "t = (b, m)" by (cases t)
    have next_j: "(j + 50 - L) mod 50 = 0" using inv by (simp add: I_def mod_step)
    show "I (j + 50) (body j t)"
    proof (cases "jgt (crossCorrelation audioData s j 1024) m")
      case True
      then have "crossCorrelation audioData s j 1024 \<noteq> NaN"
        using jlt_not_NaN by (auto simp: jgt_def)
      then show ?thesis using True j inv next_j by (simp add: I_def body_def t)
    next
      case False
      then show ?thesis using inv next_j by (simp add: I_def body_def t)
    qed
  qed
  then show ?thesis unfolding res I_def L_def H_def by auto
qed

text \<open>On 2100 samples of silence the candidates 1000 and 1050 have the correlation NaN,
  and the original end 1010 is returned.\<close>

theorem findPhaseMatchedPoint_skips_NaN_witness:
  "max (0 + 1000) (1010 - 2000) < min (int (length (replicate 2100 (Fin 0))) - 1024) (1010 + 2000)
   \<and> crossCorrelation (replicate 2100 (Fin 0)) 0 1000 1024 = NaN
   \<and> crossCorrelation (replicate 2100 (Fin 0)) 0 1050 1024 = NaN
   \<and> findPhaseMatchedPoint (replicate 2100 (Fin 0)) 0 1010 2000 = 1010
   \<and> findPhaseMatchedPoint [] 0 0 2000 = 0"
proof -
  have nan: "crossCorrelation (replicate 2100 (Fin 0)) 0 c 1024 = NaN" if "0 \<le> c" for c
    using that by (intro crossCorrelation_silence) simp_all
  have "findPhaseMatchedPoint (replicate 2100 (Fin 0)) 0 1010 2000 = 1010"
    using findPhaseMatchedPoint_skips_NaN [of "replicate 2100 (Fin 0)" 0 1010 2000]
      nan [of "findPhaseMatchedPoint (replicate 2100 (Fin 0)) 0 1010 2000"]
    by auto
  moreover have "findPhaseMatchedPoint [] 0 0 2000 = 0"
    using findPhaseMatchedPoint_skips_NaN [of "[]" 0 0 2000] by auto
  ultimately show ?thesis using nan [of 1000] nan [of 1050] by simp
qed

subsection \<open>findVolumeMatchedPoints\<close>

text \<open>
  C4. With \<open>searchStart = max (s + 1000) (e - r)\<close> and
  \<open>searchEnd = min (length - 1000) (e + r)\<close>, the claim has the returned end in
  \<open>[searchStart, searchEnd)\<close> whenever the range is not degenerate. A candidate
  replaces the end only when its RMS difference compares below the best so far, and a
  difference that is NaN compares below nothing. For the start sample -1 the start
  window reads \<^verbatim>\<open>audioData[-1]\<close>, its RMS is NaN and so is every difference: on 2000
  samples the range is \<open>[999, 1000)\<close> and the original end 5000 is returned. The same
  happens for the start sample 0 of a buffer whose samples are NaN.
\<close>

theorem findVolumeMatchedPoints_keeps_end:
  "max (- 1 + 1000) (5000 - 5000) < min (int (length (replicate 2000 (Fin 0))) - 1000) (5000 + 5000)
   \<and> snd (findVolumeMatchedPoints (replicate 2000 (Fin 0)) (- 1) 5000 5000) = 5000
   \<and> max (0 + 1000) (5000 - 5000) < min (int (length (replicate 2100 NaN)) - 1000) (5000 + 5000)
   \<and> snd (findVolumeMatchedPoints (replicate 2100 NaN) 0 5000 5000) = 5000"
proof -
  have "calculateRMS (replicate 2000 (Fin 0)) (- 1) 2048 = NaN"
    by (rule calculateRMS_NaN) (simp_all add: rd_def)
  then have a: "findVolumeMatchedPoints (replicate 2000 (Fin 0)) (- 1) 5000 5000 = (- 1, 5000)"
    by (rule findVolumeMatchedPoints_NaN)
  have "calculateRMS (replicate 2100 NaN) 0 2048 = NaN"
    by (rule calculateRMS_NaN) (simp_all add: rd_def)
  then have b: "findVolumeMatchedPoints (replicate 2100 NaN) 0 5000 5000 = (0, 5000)"
    by (rule findVolumeMatchedPoints_NaN)
  show ?thesis by (simp add: a b)
qed

text \<open>
  C4 as the code has it. For a buffer of finite samples and a start sample that is not
  negative: \<^verbatim>\<open>findVolumeMatchedPoints\<close> keeps the start; it returns the original end
  when \<open>searchEnd \<le> searchStart\<close>; otherwise the end it returns is a stepped candidate
  \<open>searchStart + 100 k\<close> in \<open>[searchStart, searchEnd)\<close>, and no stepped candidate of the
  range has a strictly smaller RMS difference to the start window.
\<close>

theorem findVolumeMatchedPoints_scan:
  assumes fin: "finite_samples audioData" and s0: "0 \<le> s"
  shows "fst (findVolumeMatchedPoints audioData s e r) = s
    \<and> (min (int (length audioData) - 1000) (e + r) \<le> max (s + 1000) (e - r)
         \<longrightarrow> snd (findVolumeMatchedPoints audioData s e r) = e)
    \<and> (max (s + 1000) (e - r) < min (int (length audioData) - 1000) (e + r)
         \<longrightarrow> max (s + 1000) (e - r) \<le> snd (findVolumeMatchedPoints audioData s e r)
           \<and> snd (findVolumeMatchedPoints audioData s e r)
               < min (int (length audioData) - 1000) (e + r)
           \<and> (snd (findVolumeMatchedPoints audioData s e r) - max (s + 1000) (e - r)) mod 100 = 0
           \<and> (\<forall>k\<ge>0. max (s + 1000) (e - r) + 100 * k < min (int (length audioData) - 1000) (e + r)
                \<longrightarrow> \<not> jlt (jabs (jsub (calculateRMS audioData s 2048)
                                 (calculateRMS audioData (max (s + 1000) (e - r) + 100 * k) 2048)))
                          (jabs (jsub (calculateRMS audioData s 2048)
                                 (calculateRMS audioData
                                    (snd (findVolumeMatchedPoints audioData s e r)) 2048)))))"
proof -
  define L where "L = max (s + 1000) (e - r)"
  define H where "H = min (int (length audioData) - 1000) (e + r)"
  define diff where "diff = (\<lambda>c. jabs (jsub (calculateRMS audioData s 2048)
                                 (calculateRMS audioData c 2048)))"
  define body where "body = (\<lambda>i (bestEndSample :: int, minRMSDiff).
               let endRMS = calculateRMS audioData i 2048;
                   rmsDiff = jabs (jsub (calculateRMS audioData s 2048) endRMS)
               in if jlt rmsDiff minRMSDiff then (i, rmsDiff) else (bestEndSample, minRMSDiff))"
  define res where "res = for_loop L H 100 body (e, PInf)"
  have fv: "findVolumeMatchedPoints audioData s e r = (s, fst res)"
    by (simp add: findVolumeMatchedPoints_def L_def H_def body_def res_def Let_def)
  have degenerate: "fst res = e" if "H \<le> L"
    using that by (simp add: res_def for_loop_done)
  have scan: "L \<le> fst res \<and> fst res < H \<and> (fst res - L) mod 100 = 0
      \<and> (\<forall>k\<ge>0. L + 100 * k < H \<longrightarrow> \<not> jlt (diff (L + 100 * k)) (diff (fst res)))" if LH: "L < H"
  proof -
    have slen: "s < int (length audioData)" using LH by (simp add: L_def H_def)
    obtain a0 where a0: "calculateRMS audioData s 2048 = Fin a0"
      using calculateRMS_fin [OF fin s0 slen, of 2048] by auto
    have cand: "\<exists>d. diff c = Fin d" if "L \<le> c" "c < H" for c
    proof -
      have "0 \<le> c" "c < int (length audioData)" using that s0 by (auto simp: L_def H_def)
      then obtain a where "calculateRMS audioData c 2048 = Fin a"
        using calculateRMS_fin [OF fin, of c 2048] by auto
      then show ?thesis using a0 by (simp add: diff_def jsub_def)
    qed
    define I where "I = (\<lambda>j (t :: int \<times> jsnum). (j - L) mod 100 = 0 \<and>
      (if j = L then t = (e, PInf)
       else L \<le> fst t \<and> fst t < j \<and> fst t < H \<and> (fst t - L) mod 100 = 0
         \<and> snd t = diff (fst t)
         \<and> (\<forall>c. L \<le> c \<and> c < j \<and> c < H \<and> (c - L) mod 100 = 0
                 \<longrightarrow> \<not> jlt (diff c) (diff (fst t)))))"
    have "\<exists>j. L \<le> j \<and> H \<le> j \<and> I j (for_loop L H 100 body (e, PInf))"
    proof (rule for_loop_inv)
      show "(0::int) < 100" by simp
      show "I L (e, PInf)" by (simp add: I_def)
      fix j t assume j: "L \<le> j" "j < H" and inv: "I j t"
      obtain b m where t: "t = (b, m)" by (cases t)
      have jmod: "(j - L) mod 100 = 0" using inv by (simp add: I_def)
      have next_j: "(j + 100 - L) mod 100 = 0" using jmod by (rule mod_step)
      obtain dj where dj: "diff j = Fin dj" using cand [OF j] by blast
      have only_j: "c = j" if "(c - L) mod 100 = 0" "j \<le> c" "c < j + 100" for c
        using mod_step_unique [OF jmod that] .
      have bj: "body j t = (if jlt (diff j) m then (j, diff j) else (b, m))"
        by (simp add: body_def t diff_def Let_def)
      show "I (j + 100) (body j t)"
      proof (cases "j = L")
        case True
        then have "m = PInf" using inv by (simp add: I_def t)
        then have "body j t = (j, diff j)" using bj dj by simp
        moreover have "\<not> jlt (diff c) (diff j)"
          if "L \<le> c" "c < j + 100" "(c - L) mod 100 = 0" for c
        proof -
          have "c = j" using only_j [of c] that True by simp
          then show ?thesis using dj by simp
        qed
        ultimately show ?thesis using j next_j jmod by (simp add: I_def)
      next
        case False
        then have b: "L \<le> b" "b < j" "b < H" "m = diff b" "(b - L) mod 100 = 0"
          and best: "\<And>c. L \<le> c \<Longrightarrow> c < j \<Longrightarrow> c < H \<Longrightarrow> (c - L) mod 100 = 0
                       \<Longrightarrow> \<not> jlt (diff c) (diff b)"
          using inv by (auto simp: I_def t)
        obtain db where db: "diff b = Fin db" using cand [OF b(1) b(3)] by blast
        show ?thesis
        proof (cases "jlt (diff j) m")
          case True
          then have lt: "dj < db" using dj db b(4) by simp
          have "\<not> jlt (diff c) (diff j)"
            if c: "L \<le> c" "c < j + 100" "c < H" "(c - L) mod 100 = 0" for c
          proof (cases "c < j")
            case True
            obtain dc where dc: "diff c = Fin dc" using cand [OF c(1) c(3)] by blast
            have "\<not> dc < db" using best [OF c(1) True c(3) c(4)] dc db by simp
            then show ?thesis using lt dc dj by simp
          next
            case False
            then have "c = j" using only_j [of c] c by simp
            then show ?thesis using dj by simp
          qed
          then show ?thesis using True bj j next_j jmod False by (simp add: I_def)
        next
          case nlt: False
          have "\<not> jlt (diff c) (diff b)"
            if c: "L \<le> c" "c < j + 100" "c < H" "(c - L) mod 100 = 0" for c
          proof (cases "c < j")
            case True
            then show ?thesis using best [OF c(1) True c(3) c(4)] by simp
          next
            case False
            then have "c = j" using only_j [of c] c by simp
            then show ?thesis using nlt b(4) by simp
          qed
          then show ?thesis using nlt bj j next_j b by (simp add: I_def)
        qed
      qed
    qed
    then obtain j where j: "L \<le> j" "H \<le> j" and Ij: "I j res" by (auto simp: res_def)
    have jL: "j \<noteq> L" using j LH by simp
    have r1: "L \<le> fst res" "fst res < H" "(fst res - L) mod 100 = 0"
      and r2: "\<And>c. L \<le> c \<Longrightarrow> c < j \<Longrightarrow> c < H \<Longrightarrow> (c - L) mod 100 = 0
                 \<Longrightarrow> \<not> jlt (diff c) (diff (fst res))"
      using Ij jL by (auto simp: I_def)
    have "\<not> jlt (diff (L + 100 * k)) (diff (fst res))" if "0 \<le> k" "L + 100 * k < H" for k
      using r2 [of "L + 100 * k"] that j by simp
    then show ?thesis using r1 by blast
  qed
  show ?thesis
    using degenerate scan unfolding fv L_def H_def diff_def by simp
qed

text \<open>
  On 1000 samples 5/32, 100 samples 17/32 and 1001 samples 7/32 the candidates are
  1000 and 1100. The start window and the window at 1100 have the RMS 7/32, the window
  at 1000 has another one: the second candidate is returned.
\<close>

theorem findVolumeMatchedPoints_scan_witness:
  "finite_samples (map Fin (replicate 1000 (5 / 32) @ replicate 100 (17 / 32) @ replicate 1001 (7 / 32)))
   \<and> calculateRMS (map Fin (replicate 1000 (5 / 32) @ replicate 100 (17 / 32) @ replicate 1001 (7 / 32)))
        0 2048 = Fin (sqrt (49 / 1024))
   \<and> calculateRMS (map Fin (replicate 1000 (5 / 32) @ replicate 100 (17 / 32) @ replicate 1001 (7 / 32)))
        1000 2048 = Fin (sqrt (77949 / 1127424))
   \<and> calculateRMS (map Fin (replicate 1000 (5 / 32) @ replicate 100 (17 / 32) @ replicate 1001 (7 / 32)))
        1100 2048 = Fin (sqrt (49 / 1024))
   \<and> findVolumeMatchedPoints
        (map Fin (replicate 1000 (5 / 32) @ replicate 100 (17 / 32) @ replicate 1001 (7 / 32)))
        0 1500 5000 = (0, 1100)
   \<and> findVolumeMatchedPoints [Fin 0] 0 0 5000 = (0, 0)"
proof -
  define xs :: "real list"
    where "xs = replicate 1000 (5 / 32) @ replicate 100 (17 / 32) @ replicate 1001 (7 / 32)"
  define data where "data = map Fin xs"
  have len: "length xs = 2101" "length data = 2101" by (simp_all add: xs_def data_def)
  have fin: "finite_samples data"
    by (simp add: data_def finite_samples_def list_all_length)
  have r0: "calculateRMS data 0 2048 = Fin (sqrt (49 / 1024))"
    unfolding data_def using calculateRMS_sum [of 0 xs 2048]
    by (simp add: len) (simp add: xs_def sum_list_replicate)
  have r1000: "calculateRMS data 1000 2048 = Fin (sqrt (77949 / 1127424))"
    unfolding data_def using calculateRMS_sum [of 1000 xs 2048]
    by (simp add: len) (simp add: xs_def sum_list_replicate)
  have r1100: "calculateRMS data 1100 2048 = Fin (sqrt (49 / 1024))"
    unfolding data_def using calculateRMS_sum [of 1100 xs 2048]
    by (simp add: len) (simp add: xs_def sum_list_replicate)
  define res where "res = snd (findVolumeMatchedPoints data 0 1500 5000)"
  define D where "D = (\<lambda>c. jabs (jsub (calculateRMS data 0 2048) (calculateRMS data c 2048)))"
  have all: "fst (findVolumeMatchedPoints data 0 1500 5000) = 0
      \<and> 1000 \<le> res \<and> res < 1101 \<and> (res - 1000) mod 100 = 0
      \<and> (\<forall>k\<ge>0. 100 * k < 101 \<longrightarrow> \<not> jlt (D (1000 + 100 * k)) (D res))"
    using findVolumeMatchedPoints_scan [OF fin, of 0 1500 5000]
    by (simp add: len res_def D_def)
  then have "\<not> jlt (D (1000 + 100 * 1)) (D res)" by (elim conjE allE [of _ 1]) simp
  then have best: "\<not> jlt (D 1100) (D res)" by simp
  have scan: "fst (findVolumeMatchedPoints data 0 1500 5000) = 0"
    "1000 \<le> res" "res < 1101" "(res - 1000) mod 100 = 0"
    using all by simp_all
  have "res = 1100"
  proof (rule ccontr)
    assume ne: "res \<noteq> 1100"
    then have "res - 1000 < 100" using scan(3,4) by (cases "res < 1100") auto
    then have "(res - 1000) mod 100 = res - 1000" using scan(2) by (intro mod_pos_pos_trivial) auto
    then have "res = 1000" using scan(4) by simp
    moreover have "sqrt (49 / 1024) \<noteq> sqrt (77949 / 1127424)" by simp
    ultimately show False using best by (simp add: D_def r0 r1000 r1100 jsub_def)
  qed
  then have a: "findVolumeMatchedPoints data 0 1500 5000 = (0, 1100)"
    using scan(1) by (simp add: res_def prod_eq_iff)
  have "finite_samples [Fin 0]" by (simp add: finite_samples_def)
  then have b: "findVolumeMatchedPoints [Fin 0] 0 0 5000 = (0, 0)"
    using findVolumeMatchedPoints_scan [of "[Fin 0]" 0 0 5000] by (simp add: prod_eq_iff)
  show ?thesis using fin r0 r1000 r1100 a b unfolding data_def xs_def by simp
qed

subsection \<open>getAdaptiveCrossfadeDuration\<close>

text \<open>
  C6. The claim bounds the result by 0.01 below and by \<open>min(0.15, 0.45 loopDuration)\<close>
  above. The last line of the code clamps to a lower bound that is itself floored at
  0.01, and the lower bound wins: for a loop of 2 samples at 44100 Hz the result is
  0.01, above \<open>0.45 loopDuration\<close> and above the loop duration.
\<close>

theorem getAdaptiveCrossfadeDuration_short_loop:
  "getAdaptiveCrossfadeDuration [Fin 0, Fin 0, Fin 0, Fin 0] 0 2 (Fin 44100) (Fin 0.05) = Fin 0.01
   \<and> \<not> (0.01 \<le> min 0.15 (real_of_int (2 - 0) / 44100 * 0.45))
   \<and> \<not> (0.01 \<le> real_of_int (2 - 0) / 44100)"
  by (simp add: getAdaptiveCrossfadeDuration_def calculateRMS_def averageAbsoluteDerivative_def
      Let_def for_loop.simps rd_def of_idx_def jsub_def EPSILON_def)


text \<open>
  C6 as the code has it: for finite samples, a loop of at least two samples inside the
  buffer, a positive sample rate and a requested duration that is not NaN, the result
  is a number, at least 0.01 and at most \<open>max(0.01, min(0.15, 0.45 loopDuration))\<close>.
\<close>

theorem getAdaptiveCrossfadeDuration_bounds:
  assumes fin: "finite_samples audioData" and s0: "0 \<le> s" and se: "s + 2 \<le> e"
    and elen: "e \<le> int (length audioData)" and sr: "0 < sr" and req: "requested \<noteq> NaN"
  shows "\<exists>d. getAdaptiveCrossfadeDuration audioData s e (Fin sr) requested = Fin d
          \<and> 0.01 \<le> d \<and> d \<le> max 0.01 (min 0.15 (real_of_int (e - s) / sr * 0.45))"
proof -
  define n where "n = max 1 (e - s)"
  have n: "n = e - s" "2 \<le> n" using se by (auto simp: n_def)
  define Ld where "Ld = real_of_int n / sr"
  have Ld: "jdiv (of_idx n) (Fin sr) = Fin Ld" "0 < Ld"
    using sr n by (auto simp: of_idx_def Ld_def)
  define aw where "aw = min 4096 (n div 2)"
  have aw: "1 \<le> aw" "aw \<le> n div 2" using n by (auto simp: aw_def)
  obtain a where a: "0 \<le> a" "calculateRMS audioData s aw = Fin a"
    using calculateRMS_fin [OF fin s0, of aw] aw se elen by auto
  have "0 \<le> max s (e - aw)" "max s (e - aw) < int (length audioData)"
    using s0 aw elen n by auto
  then obtain b where b: "0 \<le> b" "calculateRMS audioData (max s (e - aw)) aw = Fin b"
    using calculateRMS_fin [OF fin, of "max s (e - aw)" aw] aw by auto
  define dw where "dw = min 2048 aw"
  obtain c where c: "0 \<le> c" "averageAbsoluteDerivative audioData s dw = Fin c"
    using averageAbsoluteDerivative_fin [OF fin s0] by blast
  have "0 \<le> max s (e - dw - 1)" using s0 by simp
  then obtain c' where c': "0 \<le> c'"
      "averageAbsoluteDerivative audioData (max s (e - dw - 1)) dw = Fin c'"
    using averageAbsoluteDerivative_fin [OF fin] by blast
  obtain q where q: "clamp requested (Fin 0.015) (Fin 0.2) = Fin q"
    using clamp_not_NaN [OF req, of "0.015" "0.2"] by auto
  define rmsDiff where "rmsDiff = \<bar>a - b\<bar> / max a (1 / 1000000)"
  have rd: "jdiv (jabs (jsub (Fin a) (Fin b))) (jmax (Fin a) EPSILON) = Fin rmsDiff"
    by (simp add: jsub_def EPSILON_def rmsDiff_def max_def)
  define ad0 where "ad0 = q + max 0 (min 1 rmsDiff) * 0.03 + max 0 (min 1 (max c c' / 0.5)) * 0.04"
  define ad where "ad = (if Ld < 0.4 then ad0 * max 0.3 (min 1 (Ld / 0.4)) else ad0)"
  define lo where "lo = max 0.01 (min 0.015 (Ld * 0.2))"
  define hi where "hi = max (min 0.015 (Ld * 0.2)) (min 0.15 (Ld * 0.45))"
  have res: "getAdaptiveCrossfadeDuration audioData s e (Fin sr) requested
      = Fin (max lo (min hi ad))"
    unfolding getAdaptiveCrossfadeDuration_def Let_def n_def [symmetric] Ld(1)
      aw_def [symmetric] dw_def [symmetric] a(2) b(2) c(2) c'(2) q rd
    by (simp add: ad_def ad0_def lo_def hi_def)
  have "0.01 \<le> max lo (min hi ad)" by (simp add: lo_def)
  moreover have "max lo (min hi ad) \<le> max 0.01 (min 0.15 (Ld * 0.45))"
  proof -
    have "min 0.015 (Ld * 0.2) \<le> min 0.15 (Ld * 0.45)" using Ld(2) by (simp add: min_def)
    then show ?thesis unfolding lo_def hi_def by (rule clamp_upper)
  qed
  ultimately show ?thesis unfolding res using n(1) by (simp add: Ld_def)
qed


theorem getAdaptiveCrossfadeDuration_bounds_witness:
  "\<exists>d. getAdaptiveCrossfadeDuration [Fin 0, Fin 0, Fin 0, Fin 0] 0 2 (Fin 44100) (Fin 0.05) = Fin d
     \<and> 0.01 \<le> d \<and> d \<le> max 0.01 (min 0.15 (real_of_int (2 - 0) / 44100 * 0.45))"
proof -
  have "finite_samples [Fin 0, Fin 0, Fin 0, Fin 0]" by (simp add: finite_samples_def)
  then show ?thesis
    using getAdaptiveCrossfadeDuration_bounds [of "[Fin 0, Fin 0, Fin 0, Fin 0]" 0 2 44100 "Fin 0.05"]
    by simp
qed

subsection \<open>optimizeLoopPoints\<close>

text \<open>
  C1. The claim: for every buffer with at least one sample and every selection with
  \<open>0 \<le> start < end \<le> duration\<close> the result has
  \<open>0 \<le> startSample < endSample \<le> length - 1\<close>. The optimizer never compares its two
  positions and never clamps them: a stage whose scan finds nothing returns the
  position it was given, and on a short buffer the volume scan and the phase scan are
  empty. On 125 samples of the value \<open>1 / 2 ^ 21\<close> at 8000 Hz (a duration of 1/64 s, a mean
  below the DC threshold, no zero crossing) the selection from 0 to 1/16384 s gives
  \<open>startSample = endSample = 0\<close>, and the selection from 0 to the duration gives
  \<open>endSample = 125\<close>, the length. The start can reach the length as well: on 5 such
  samples at 44100 Hz the duration is the double \<open>8365870328212949 / 2 ^ 66\<close>, and for
  the selection from the double below it to the duration the product of start and
  rate rounds to 5, so \<open>startSample = 5\<close>.
\<close>

theorem optimizeLoopPoints_degenerate:
  "wf_buffer [replicate 125 (Fin (1 / 2 ^ 21))]
     \<lparr>sampleRate = 8000, buf_length = 125, channelData = [0]\<rparr>
   \<and> duration \<lparr>sampleRate = 8000, buf_length = 125, channelData = [0]\<rparr> = 1 / 64
   \<and> (0 :: real) \<le> 0 \<and> (0 :: real) < 1 / 16384 \<and> (1 / 16384 :: real) \<le> 1 / 64
   \<and> map_sum id startSample (optimizeLoopPoints [replicate 125 (Fin (1 / 2 ^ 21))]
         \<lparr>sampleRate = 8000, buf_length = 125, channelData = [0]\<rparr>
         \<lparr>lp_start = 0, lp_end = 1 / 16384\<rparr> (Fin 0.05)) = Inr 0
   \<and> map_sum id endSample (optimizeLoopPoints [replicate 125 (Fin (1 / 2 ^ 21))]
         \<lparr>sampleRate = 8000, buf_length = 125, channelData = [0]\<rparr>
         \<lparr>lp_start = 0, lp_end = 1 / 16384\<rparr> (Fin 0.05)) = Inr 0
   \<and> map_sum id endSample (optimizeLoopPoints [replicate 125 (Fin (1 / 2 ^ 21))]
         \<lparr>sampleRate = 8000, buf_length = 125, channelData = [0]\<rparr>
         \<lparr>lp_start = 0, lp_end = 1 / 64\<rparr> (Fin 0.05)) = Inr 125
   \<and> wf_buffer [replicate 5 (Fin (1 / 2 ^ 21))]
         \<lparr>sampleRate = 44100, buf_length = 5, channelData = [0]\<rparr>
   \<and> duration \<lparr>sampleRate = 44100, buf_length = 5, channelData = [0]\<rparr>
       = 8365870328212949 / 2 ^ 66
   \<and> (0 :: real) \<le> 8365870328212948 / 2 ^ 66
   \<and> (8365870328212948 / 2 ^ 66 :: real) < 8365870328212949 / 2 ^ 66
   \<and> map_sum id startSample (optimizeLoopPoints [replicate 5 (Fin (1 / 2 ^ 21))]
         \<lparr>sampleRate = 44100, buf_length = 5, channelData = [0]\<rparr>
         \<lparr>lp_start = 8365870328212948 / 2 ^ 66, lp_end = 8365870328212949 / 2 ^ 66\<rparr>
         (Fin 0.05)) = Inr 5"
proof -
  have d: "dbl (125 / 256) = 125 / 256" "dbl 125 = 125" "dbl (1 / 64) = 1 / 64"
    using dbl_dyadic [of 125 8] dbl_of_int [of 125] dbl_dyadic [of 1 6] by simp_all
  have c: "(0 :: real) < 1 / 2 ^ 21" "(1 :: real) / 2 ^ 21 < 1 / 1000000" by simp_all
  have a: "map_sum id startSample (optimizeLoopPoints [replicate 125 (Fin (1 / 2 ^ 21))]
         \<lparr>sampleRate = 8000, buf_length = 125, channelData = [0]\<rparr>
         \<lparr>lp_start = 0, lp_end = 1 / 16384\<rparr> (Fin 0.05)) = Inr 0"
    "map_sum id endSample (optimizeLoopPoints [replicate 125 (Fin (1 / 2 ^ 21))]
         \<lparr>sampleRate = 8000, buf_length = 125, channelData = [0]\<rparr>
         \<lparr>lp_start = 0, lp_end = 1 / 16384\<rparr> (Fin 0.05)) = Inr 0"
    using optimizeLoopPoints_quiet [OF c, of 125 0 8000 "1 / 16384" "Fin 0.05"]
    by (simp_all add: d)
  have b: "map_sum id endSample (optimizeLoopPoints [replicate 125 (Fin (1 / 2 ^ 21))]
         \<lparr>sampleRate = 8000, buf_length = 125, channelData = [0]\<rparr>
         \<lparr>lp_start = 0, lp_end = 1 / 64\<rparr> (Fin 0.05)) = Inr 125"
    using optimizeLoopPoints_quiet [OF c, of 125 0 8000 "1 / 64" "Fin 0.05"]
    by (simp add: d)
  define t1 :: real where "t1 = 8365870328212948 / 2 ^ 66"
  define t2 :: real where "t2 = 8365870328212949 / 2 ^ 66"
  have f: "dbl (5 / 44100) = t2" "dbl (t1 * 44100) = 5"
    unfolding t1_def t2_def by (rule five_samples)+
  have "(0 :: int) \<le> \<lfloor>dbl (t1 * 44100)\<rfloor>" by (simp only: f) simp
  then have "map_sum id startSample (optimizeLoopPoints [replicate 5 (Fin (1 / 2 ^ 21))]
         \<lparr>sampleRate = 44100, buf_length = 5, channelData = [0]\<rparr>
         \<lparr>lp_start = t1, lp_end = t2\<rparr> (Fin 0.05)) = Inr 5"
    using optimizeLoopPoints_quiet [OF c, of 5 t1 44100 t2 "Fin 0.05"]
    by (simp add: f)
  moreover have "dbl (1 / 8820) = t2" using f(1) by simp
  then have "duration \<lparr>sampleRate = 44100, buf_length = 5, channelData = [0]\<rparr> = t2"
    by (simp add: duration_def)
  ultimately have e: "duration \<lparr>sampleRate = 44100, buf_length = 5, channelData = [0]\<rparr>
       = 8365870328212949 / 2 ^ 66
   \<and> map_sum id startSample (optimizeLoopPoints [replicate 5 (Fin (1 / 2 ^ 21))]
         \<lparr>sampleRate = 44100, buf_length = 5, channelData = [0]\<rparr>
         \<lparr>lp_start = 8365870328212948 / 2 ^ 66, lp_end = 8365870328212949 / 2 ^ 66\<rparr>
         (Fin 0.05)) = Inr 5"
    unfolding t1_def t2_def by (rule conjI [rotated])
  have g: "wf_buffer [replicate 125 (Fin (1 / 2 ^ 21))]
     \<lparr>sampleRate = 8000, buf_length = 125, channelData = [0]\<rparr>
   \<and> duration \<lparr>sampleRate = 8000, buf_length = 125, channelData = [0]\<rparr> = 1 / 64
   \<and> wf_buffer [replicate 5 (Fin (1 / 2 ^ 21))]
         \<lparr>sampleRate = 44100, buf_length = 5, channelData = [0]\<rparr>"
    by (simp add: wf_buffer_def duration_def d)
  show ?thesis
    by (intro conjI a b e [THEN conjunct1] e [THEN conjunct2] g [THEN conjunct1]
        g [THEN conjunct2, THEN conjunct1] g [THEN conjunct2, THEN conjunct2]) simp_all
qed

text \<open>
  C1 as the code has it. For a well-formed buffer of at most \<open>2 ^ 51\<close> samples and a
  selection with \<open>0 \<le> start < end \<le> duration\<close> the optimizer returns a record with
  \<open>0 \<le> startSample \<le> length\<close> and \<open>0 \<le> endSample \<le> length\<close>. When the samples are
  finite and more than 2000 samples follow the optimized start, the volume scan is not
  empty and takes a candidate at least 1000 samples after the start, which the later
  stages keep at least 300 samples after it and below the last sample: there the
  claimed invariant holds, \<open>startSample + 300 \<le> endSample \<le> length - 1\<close>.
\<close>

theorem optimizeLoopPoints_bounds:
  assumes wf: "wf_buffer st b" and small: "buf_length b \<le> 2 ^ 51"
    and lp: "0 \<le> lp_start lp" "lp_start lp < lp_end lp" "lp_end lp \<le> duration b"
  shows "\<exists>r. optimizeLoopPoints st b lp req = Inr r
       \<and> 0 \<le> startSample r \<and> startSample r \<le> int (buf_length b)
       \<and> 0 \<le> endSample r \<and> endSample r \<le> int (buf_length b)
       \<and> (finite_samples (getChannelData st b 0) \<and> startSample r + 2000 < int (buf_length b)
            \<longrightarrow> startSample r + 300 \<le> endSample r \<and> endSample r \<le> int (buf_length b) - 1)"
proof -
  define sr where "sr = sampleRate b"
  define n where "n = int (buf_length b)"
  define data where "data = removeDCOffset (getChannelData st b 0)"
  define s0 where "s0 = \<lfloor>dbl (lp_start lp * sr)\<rfloor>"
  define e0 where "e0 = \<lfloor>dbl (lp_end lp * sr)\<rfloor>"
  define s1 where "s1 = findNearestZeroCrossing data s0 2000"
  define e1 where "e1 = findNearestZeroCrossing data e0 2000"
  define e2 where "e2 = snd (findVolumeMatchedPoints data s1 e1 5000)"
  define e3 where "e3 = findNearestZeroCrossing data e2 500"
  define e4 where "e4 = findPhaseMatchedPoint data s1 e3 2000"
  define e5 where "e5 = findNearestZeroCrossing data e4 200"
  have sr: "0 < sr" using wf by (simp add: wf_buffer_def sr_def)
  have ch: "1 \<le> numberOfChannels b"
    using wf by (cases "channelData b") (simp_all add: wf_buffer_def numberOfChannels_def)
  have len: "int (length data) = n"
    using getChannelData_wf [OF wf] by (simp add: data_def n_def)
  have s0: "0 \<le> s0" using lp(1) sr unfolding s0_def by (intro floor_dbl_nonneg) simp
  have se: "s0 \<le> e0"
    using lp(1,2) sr unfolding s0_def e0_def by (intro floor_dbl_mono) simp_all
  have e0: "e0 \<le> n"
    unfolding e0_def n_def using sr small lp floor_dbl_le_length [of sr "buf_length b" "lp_end lp"]
    by (simp add: duration_def sr_def)
  have z1: "s1 = s0 \<or> (max 0 (s0 - 2000) \<le> s1 \<and> s1 < min (n - 1) (s0 + 2000) - 1)"
    using findNearestZeroCrossing_range [of data s0 2000] by (simp only: s1_def len)
  have z2: "e1 = e0 \<or> (max 0 (e0 - 2000) \<le> e1 \<and> e1 < min (n - 1) (e0 + 2000) - 1)"
    using findNearestZeroCrossing_range [of data e0 2000] by (simp only: e1_def len)
  have v: "e2 = e1 \<or> (max (s1 + 1000) (e1 - 5000) \<le> e2 \<and> e2 < min (n - 1000) (e1 + 5000))"
    using findVolumeMatchedPoints_range [of data s1 e1 5000] by (simp only: e2_def len)
  have z3: "e3 = e2 \<or> (max 0 (e2 - 500) \<le> e3 \<and> e3 < min (n - 1) (e2 + 500) - 1)"
    using findNearestZeroCrossing_range [of data e2 500] by (simp only: e3_def len)
  have p: "e4 = e3 \<or> (max (s1 + 1000) (e3 - 2000) \<le> e4 \<and> e4 < min (n - 1024) (e3 + 2000))"
    using findPhaseMatchedPoint_range [of data s1 e3 2000] by (simp only: e4_def len)
  have z4: "e5 = e4 \<or> (max 0 (e4 - 200) \<le> e5 \<and> e5 < min (n - 1) (e4 + 200) - 1)"
    using findNearestZeroCrossing_range [of data e4 200] by (simp only: e5_def len)
  have b1: "0 \<le> s1" "s1 \<le> n" "s1 \<le> s0 + 1998" using z1 s0 se e0 by auto
  have b2: "0 \<le> e1" "e1 \<le> n" "e0 - 2000 \<le> e1" using z2 s0 se e0 by auto
  have b3: "0 \<le> e2" "e2 \<le> n" using v b1 b2 by auto
  have b4: "0 \<le> e3" "e3 \<le> n" using z3 b3 by auto
  have b5: "0 \<le> e4" "e4 \<le> n" using p b1 b4 by auto
  have b6: "0 \<le> e5" "e5 \<le> n" using z4 b5 by auto
  have order: "s1 + 300 \<le> e5 \<and> e5 \<le> n - 1"
    if fin: "finite_samples (getChannelData st b 0)" and room: "s1 + 2000 < n"
  proof -
    have fd: "finite_samples data" unfolding data_def using fin by (rule finite_samples_removeDCOffset)
    have "max (s1 + 1000) (e1 - 5000) < min (int (length data) - 1000) (e1 + 5000)"
      using room b1 b2 se by (simp add: len)
    then have c2: "s1 + 1000 \<le> e2" "e2 < n - 1000"
      using findVolumeMatchedPoints_finds [OF fd b1(1), of e1 5000] by (simp_all add: e2_def len)
    have c3: "s1 + 500 \<le> e3" "e3 < n - 502" using z3 c2 by auto
    have c4: "s1 + 500 \<le> e4" "e4 < n - 502" using p c3 by auto
    show ?thesis using z4 c4 by auto
  qed
  have "optimizeLoopPoints st b lp req
       = Inr \<lparr>lp_start = dbl (real_of_int s1 / sampleRate b),
              lp_end = dbl (real_of_int e5 / sampleRate b),
              startSample = s1, endSample = e5,
              crossfadeDuration =
                getAdaptiveCrossfadeDuration data s1 e5 (Fin (sampleRate b)) req\<rparr>"
    unfolding s1_def e5_def e4_def e3_def e2_def e1_def s0_def e0_def data_def sr_def
    by (rule optimizeLoopPoints_stages [OF ch])
  then show ?thesis using b1 b6 order by (simp add: n_def)
qed

text \<open>4000 samples at 8000 Hz and the selection from 0 to 1/4 s: every stage scans.\<close>

theorem optimizeLoopPoints_bounds_witness:
  "\<exists>r. optimizeLoopPoints [replicate 4000 (Fin 0)]
          \<lparr>sampleRate = 8000, buf_length = 4000, channelData = [0]\<rparr>
          \<lparr>lp_start = 0, lp_end = 1 / 4\<rparr> (Fin 0.05) = Inr r
      \<and> 0 \<le> startSample r \<and> startSample r + 300 \<le> endSample r \<and> endSample r \<le> 3999"
proof -
  define st where "st = [replicate 4000 (Fin 0 :: jsnum)]"
  define b where "b = \<lparr>sampleRate = 8000, buf_length = 4000, channelData = [0]\<rparr>"
  define lp where "lp = \<lparr>lp_start = 0, lp_end = 1 / 4\<rparr>"
  have wf: "wf_buffer st b" by (simp add: wf_buffer_def st_def b_def)
  have ch: "1 \<le> numberOfChannels b" by (simp add: numberOfChannels_def b_def)
  have data: "getChannelData st b 0 = replicate 4000 (Fin 0)"
    by (simp add: getChannelData_def numberOfChannels_def array_at_def st_def b_def)
  have fin: "finite_samples (getChannelData st b 0)"
    by (simp add: data finite_samples_def list_all_length)
  have dur: "duration b = 1 / 2" using dbl_dyadic [of 1 1] by (simp add: duration_def b_def)
  have h: "0 \<le> lp_start lp" "lp_start lp < lp_end lp" "lp_end lp \<le> duration b"
    "buf_length b \<le> 2 ^ 51"
    by (simp_all add: lp_def dur) (simp add: b_def)
  obtain r where r: "optimizeLoopPoints st b lp (Fin 0.05) = Inr r"
      "0 \<le> startSample r"
      "finite_samples (getChannelData st b 0) \<and> startSample r + 2000 < int (buf_length b)
         \<longrightarrow> startSample r + 300 \<le> endSample r \<and> endSample r \<le> int (buf_length b) - 1"
    using optimizeLoopPoints_bounds [OF wf h(4) h(1-3), of "Fin 0.05"] by blast
  have "startSample r = findNearestZeroCrossing (removeDCOffset (getChannelData st b 0)) 0 2000"
    using r(1) optimizeLoopPoints_stages [OF ch, of st lp "Fin 0.05"] by (auto simp: lp_def)
  then have "startSample r < 1999"
    using findNearestZeroCrossing_range [of "removeDCOffset (getChannelData st b 0)" 0 2000]
    by (auto simp: data)
  then have "startSample r + 300 \<le> endSample r \<and> endSample r \<le> 3999"
    using r(3) fin by (simp add: b_def)
  then show ?thesis using r(1,2) unfolding st_def b_def lp_def by blast
qed




subsection \<open>audioBufferToWav\<close>

text \<open>
  C7. The claim has the decoded samples within 1/32768 of the clamped originals. The
  encoder hands the scaled sample to \<^verbatim>\<open>setInt16\<close>, which truncates towards zero: the
  sample 32769/16777216 (a 32-bit float), scaled by 0x7FFF, is 64 - 1/16777216 and is
  stored as 63. Read back as 63/32768 it is more than 1/32768 below the sample (and so
  it is when read back as 63/32767).
\<close>

theorem audioBufferToWav_truncates:
  "wf_buffer [[Fin (32769 / 16777216)]] \<lparr>sampleRate = 44100, buf_length = 1, channelData = [0]\<rparr>
   \<and> getChannelData [[Fin (32769 / 16777216)]]
        \<lparr>sampleRate = 44100, buf_length = 1, channelData = [0]\<rparr> 0 ! 0 = Fin (32769 / 16777216)
   \<and> getInt16 (audioBufferToWav [[Fin (32769 / 16777216)]]
        \<lparr>sampleRate = 44100, buf_length = 1, channelData = [0]\<rparr>) 44 = 63
   \<and> pcm16_sample (audioBufferToWav [[Fin (32769 / 16777216)]]
        \<lparr>sampleRate = 44100, buf_length = 1, channelData = [0]\<rparr>) 0 = 63 / 32768
   \<and> \<not> \<bar>63 / 32768 - max (- 1) (min 1 (32769 / 16777216))\<bar> \<le> (1 / 32768 :: real)
   \<and> \<not> \<bar>63 / 32767 - max (- 1) (min 1 (32769 / 16777216))\<bar> \<le> (1 / 32768 :: real)"
proof -
  define st where "st = [[Fin (32769 / 16777216)]]"
  define b where "b = \<lparr>sampleRate = 44100, buf_length = 1, channelData = [0]\<rparr>"
  have wf: "wf_buffer st b" by (simp add: wf_buffer_def st_def b_def)
  have v: "getChannelData st b 0 ! 0 = Fin (32769 / 16777216)"
    by (simp add: getChannelData_def numberOfChannels_def array_at_def st_def b_def)
  have t: "trunc (32769 / 16777216 * 32767) = 63"
    by (simp add: trunc_def floor_eq_iff)
  have "getInt16 (audioBufferToWav st b) (44 + 2 * (0 * numberOfChannels b + 0))
     = (if max (- 1) (min 1 (32769 / 16777216 :: real)) < 0
        then trunc (max (- 1) (min 1 (32769 / 16777216)) * 32768)
        else trunc (max (- 1) (min 1 (32769 / 16777216)) * 32767))"
    by (rule audioBufferToWav_bytes(8) [OF wf, of 44100 0 0, OF _ _ _ _ _ _ v])
       (simp_all add: b_def numberOfChannels_def)
  then have q: "getInt16 (audioBufferToWav st b) 44 = 63" using t by simp
  then have "pcm16_sample (audioBufferToWav st b) 0 = 63 / 32768"
    by (simp add: pcm16_sample_def)
  then show ?thesis using wf v q unfolding st_def b_def by simp
qed

text \<open>
  C7 as the code has it. For a well-formed buffer whose channel count, integral sample
  rate and data length fit their header fields, the encoder writes 44 bytes of header
  and two bytes per sample; the header has format tag 1, the channel count, the sample
  rate, block-align = channels * 2, bit depth 16 and the data length in bytes; frame
  \<open>i\<close> of channel \<open>c\<close> is the little-endian signed 16-bit word number
  \<open>i * channels + c\<close> of the payload, and for a finite sample that word is the sample
  clamped to [-1, 1], scaled by 0x8000 when negative and by 0x7FFF otherwise, truncated
  towards zero; read back and divided by 32768 it is less than 2/32768 from the clamped
  sample.
\<close>

theorem audioBufferToWav_layout:
  assumes wf: "wf_buffer st b"
    and nch: "numberOfChannels b * 2 < 65536"
    and sr: "sampleRate b = real r" "r < 4294967296"
    and dl: "2 * (buf_length b * numberOfChannels b) < 4294967296"
  shows "length (audioBufferToWav st b) = 44 + 2 * (buf_length b * numberOfChannels b)
    \<and> getUint16 (audioBufferToWav st b) 20 = 1
    \<and> getUint16 (audioBufferToWav st b) 22 = numberOfChannels b
    \<and> getUint32 (audioBufferToWav st b) 24 = r
    \<and> getUint16 (audioBufferToWav st b) 32 = numberOfChannels b * 2
    \<and> getUint16 (audioBufferToWav st b) 34 = 16
    \<and> getUint32 (audioBufferToWav st b) 40 = 2 * (buf_length b * numberOfChannels b)
    \<and> (\<forall>i<buf_length b. \<forall>c<numberOfChannels b. \<forall>v. getChannelData st b c ! i = Fin v \<longrightarrow>
          getInt16 (audioBufferToWav st b) (44 + 2 * (i * numberOfChannels b + c))
            = (if max (- 1) (min 1 v) < 0 then trunc (max (- 1) (min 1 v) * 32768)
               else trunc (max (- 1) (min 1 v) * 32767))
          \<and> \<bar>pcm16_sample (audioBufferToWav st b) (i * numberOfChannels b + c)
               - max (- 1) (min 1 v)\<bar> < 2 / 32768)"
proof -
  note bytes = audioBufferToWav_bytes [OF assms]
  have "getInt16 (audioBufferToWav st b) (44 + 2 * (i * numberOfChannels b + c))
            = (if max (- 1) (min 1 v) < 0 then trunc (max (- 1) (min 1 v) * 32768)
               else trunc (max (- 1) (min 1 v) * 32767))
          \<and> \<bar>pcm16_sample (audioBufferToWav st b) (i * numberOfChannels b + c)
               - max (- 1) (min 1 v)\<bar> < 2 / 32768"
    if "i < buf_length b" "c < numberOfChannels b" "getChannelData st b c ! i = Fin v" for i c v
  proof -
    define cl where "cl = max (- 1) (min 1 v)"
    define q where "q = getInt16 (audioBufferToWav st b) (44 + 2 * (i * numberOfChannels b + c))"
    have cl: "- 1 \<le> cl" "cl \<le> 1" by (auto simp: cl_def)
    have q: "q = (if cl < 0 then trunc (cl * 32768) else trunc (cl * 32767))"
      unfolding q_def cl_def by (rule bytes(8) [OF that])
    have p: "pcm16_sample (audioBufferToWav st b) (i * numberOfChannels b + c)
        = real_of_int q / 32768"
      by (simp only: pcm16_sample_def q_def)
    have "\<bar>real_of_int q / 32768 - cl\<bar> < 2 / 32768"
    proof (cases "cl < 0")
      case True
      then show ?thesis using quantize_negative(3) [OF cl(1) True] q by simp
    next
      case False
      then have "0 \<le> cl" by simp
      then show ?thesis using quantize_nonnegative(3) [OF _ cl(2)] q False by simp
    qed
    then show ?thesis using q unfolding p unfolding q_def cl_def by blast
  qed
  then show ?thesis using bytes(1-7) by blast
qed

theorem audioBufferToWav_layout_witness:
  "getUint16 (audioBufferToWav [[Fin 1, Fin (- 2)], [Fin 0, Fin 0.5]]
       \<lparr>sampleRate = 44100, buf_length = 2, channelData = [0, 1]\<rparr>) 22 = 2
   \<and> getUint32 (audioBufferToWav [[Fin 1, Fin (- 2)], [Fin 0, Fin 0.5]]
       \<lparr>sampleRate = 44100, buf_length = 2, channelData = [0, 1]\<rparr>) 24 = 44100
   \<and> getUint32 (audioBufferToWav [[Fin 1, Fin (- 2)], [Fin 0, Fin 0.5]]
       \<lparr>sampleRate = 44100, buf_length = 2, channelData = [0, 1]\<rparr>) 40 = 8
   \<and> getInt16 (audioBufferToWav [[Fin 1, Fin (- 2)], [Fin 0, Fin 0.5]]
       \<lparr>sampleRate = 44100, buf_length = 2, channelData = [0, 1]\<rparr>) 48 = - 32768
   \<and> \<bar>pcm16_sample (audioBufferToWav [[Fin 1, Fin (- 2)], [Fin 0, Fin 0.5]]
       \<lparr>sampleRate = 44100, buf_length = 2, channelData = [0, 1]\<rparr>) 2 - (- 1)\<bar> < 2 / 32768"
proof -
  define st where "st = [[Fin 1, Fin (- 2)], [Fin 0, Fin 0.5]]"
  define b where "b = \<lparr>sampleRate = 44100, buf_length = 2, channelData = [0, 1]\<rparr>"
  define W where "W = audioBufferToWav st b"
  have wf: "wf_buffer st b" by (simp add: wf_buffer_def st_def b_def)
  have v: "getChannelData st b 0 ! 1 = Fin (- 2)"
    by (simp add: getChannelData_def numberOfChannels_def array_at_def st_def b_def)
  have n: "numberOfChannels b = 2" "buf_length b = 2" by (simp_all add: numberOfChannels_def b_def)
  have t: "trunc (- 32768) = - 32768" by (simp add: trunc_def)
  have all: "length W = 44 + 2 * (2 * 2)
    \<and> getUint16 W 20 = 1 \<and> getUint16 W 22 = 2 \<and> getUint32 W 24 = 44100
    \<and> getUint16 W 32 = 2 * 2 \<and> getUint16 W 34 = 16 \<and> getUint32 W 40 = 2 * (2 * 2)
    \<and> (\<forall>i<2. \<forall>c<2. \<forall>v. getChannelData st b c ! i = Fin v \<longrightarrow>
          getInt16 W (44 + 2 * (i * 2 + c))
            = (if max (- 1) (min 1 v) < 0 then trunc (max (- 1) (min 1 v) * 32768)
               else trunc (max (- 1) (min 1 v) * 32767))
          \<and> \<bar>pcm16_sample W (i * 2 + c) - max (- 1) (min 1 v)\<bar> < 2 / 32768)"
    using audioBufferToWav_layout [OF wf, of 44100] unfolding n W_def
    by (simp add: b_def)
  then have "getInt16 W (44 + 2 * (1 * 2 + 0))
            = (if max (- 1) (min 1 (- 2 :: real)) < 0 then trunc (max (- 1) (min 1 (- 2)) * 32768)
               else trunc (max (- 1) (min 1 (- 2)) * 32767))
          \<and> \<bar>pcm16_sample W (1 * 2 + 0) - max (- 1) (min 1 (- 2))\<bar> < 2 / 32768"
    using v by (meson one_less_numeral_iff pos2 semiring_norm(76))
  then have "getInt16 W 48 = - 32768 \<and> \<bar>pcm16_sample W 2 - (- 1)\<bar> < 2 / 32768"
    using t by simp
  then show ?thesis using all unfolding W_def st_def b_def by simp
qed

subsection \<open>applyCrossfade and createExtendedLoop\<close>

text \<open>
  C8. The two crossfade loops of \<^verbatim>\<open>applyCrossfade\<close> run \<open>fadeLength\<close> times and read
  \<^verbatim>\<open>inputData[endSample - fadeLength + i]\<close> ("the sample from the end of the loop") and
  \<^verbatim>\<open>outputData[loopLength - fadeLength + i]\<close>. The fade length
  \<open>floor(crossfadeDuration * sampleRate)\<close> is never compared with the loop: the stitch
  loop beside them clamps its length to a fifth of the loop and its index with
  \<^verbatim>\<open>Math.max(startSample, ...)\<close>, the crossfade loops do neither. When the fade length
  does not exceed the loop length every access is in range (lemma
  \<open>applyCrossfade_safe\<close>); when it does, the indices leave the arrays. For the loop
  points \<open>startSample = 0\<close>, \<open>endSample = 3\<close> of a buffer of 3 samples at 44100 Hz,
  with the crossfade of 0.01 s (the least crossfade the sizer returns, hence the one
  the optimizer gives a selection of 3 samples), the fade length is 441 and the first
  read of the crossfade at the beginning is at index 3 - 441 = -438 of the input
  channel, which is no index of the array. The reads before the input give
  \<^verbatim>\<open>undefined\<close>, and the channel that is returned is NaN in its three samples.
\<close>

theorem applyCrossfade_reads_before_input:
  "wf_buffer [[Fin 0, Fin 0, Fin 0]] \<lparr>sampleRate = 44100, buf_length = 3, channelData = [0]\<rparr>
   \<and> (0 :: int) \<le> 0 \<and> (0 :: int) < 3 \<and> (3 :: int) \<le> int (length [Fin 0, Fin 0, Fin 0 :: jsnum])
   \<and> fadeLength_of (jmul (Fin 0.01) (Fin 44100)) = Some 441
   \<and> (0, - 438) \<in> set (accesses (applyCrossfade \<lparr>heap = [[Fin 0, Fin 0, Fin 0]], trace = []\<rparr>
         \<lparr>sampleRate = 44100, buf_length = 3, channelData = [0]\<rparr>
         \<lparr>lp_start = 0, lp_end = 3 / 44100, startSample = 0, endSample = 3,
           crossfadeDuration = Fin 0.01\<rparr>))
   \<and> \<not> in_range (shape [[Fin 0, Fin 0, Fin 0], [Fin 0, Fin 0, Fin 0]]) (0, - 438)
   \<and> output_channel (applyCrossfade \<lparr>heap = [[Fin 0, Fin 0, Fin 0]], trace = []\<rparr>
         \<lparr>sampleRate = 44100, buf_length = 3, channelData = [0]\<rparr>
         \<lparr>lp_start = 0, lp_end = 3 / 44100, startSample = 0, endSample = 3,
           crossfadeDuration = Fin 0.01\<rparr>) 0 = [NaN, NaN, NaN]"
proof -
  have "(0, 3 - 441) \<in> set (trace (crossfadeChannel 0 1 0 3 3 441 sl False s))" for sl s
    by (rule crossfadeChannel_first_fade_read) simp
  moreover have one: "for_loop 0 1 1 body s = body 0 s"
    for body :: "int \<Rightarrow> cf_state \<Rightarrow> cf_state" and s
    by (simp add: for_loop.simps [of 0] for_loop_done)
  moreover have d: "dbl 441 = 441" using dbl_of_int [of 441] by simp
  ultimately have a: "(0, - 438) \<in> set (accesses (applyCrossfade \<lparr>heap = [[Fin 0, Fin 0, Fin 0]], trace = []\<rparr>
         \<lparr>sampleRate = 44100, buf_length = 3, channelData = [0]\<rparr>
         \<lparr>lp_start = 0, lp_end = 3 / 44100, startSample = 0, endSample = 3,
           crossfadeDuration = Fin 0.01\<rparr>))"
    by (simp add: accesses_def applyCrossfade_def createBuffer_def numberOfChannels_def
        fadeLength_of_def Let_def jge_def)
  have b: "fadeLength_of (jmul (Fin 0.01) (Fin 44100)) = Some 441"
    by (simp add: fadeLength_of_def d)
  have "all_NaN 1 3 (crossfadeChannel 0 1 0 3 3 441 sl False
          \<lparr>heap = [[Fin 0, Fin 0, Fin 0], [Fin 0, Fin 0, Fin 0]], trace = []\<rparr>)" for sl
    by (rule crossfadeChannel_all_NaN) (simp_all add: array_at_def)
  then have c: "output_channel (applyCrossfade \<lparr>heap = [[Fin 0, Fin 0, Fin 0]], trace = []\<rparr>
         \<lparr>sampleRate = 44100, buf_length = 3, channelData = [0]\<rparr>
         \<lparr>lp_start = 0, lp_end = 3 / 44100, startSample = 0, endSample = 3,
           crossfadeDuration = Fin 0.01\<rparr>) 0 = [NaN, NaN, NaN]"
    by (simp add: output_channel_def applyCrossfade_def createBuffer_def numberOfChannels_def
        fadeLength_of_def Let_def jge_def d one getChannelData_def all_NaN_def
        numeral_3_eq_3)
  show ?thesis using a b c by (simp add: wf_buffer_def in_range_def)
qed

text \<open>
  C10. Neither \<^verbatim>\<open>applyCrossfade\<close> nor \<^verbatim>\<open>createExtendedLoop\<close> modifies its input buffer:
  when the call returns, every array that was in the store before the call holds the
  values it held, and so does every channel of the input buffer. Every write, those of
  the DC removal and of the seam smoothing included, goes to an array of the buffer
  the call has allocated.
\<close>

theorem synthesis_leaves_input_unchanged:
  assumes wf: "wf_buffer (heap s) b"
  shows "(applyCrossfade s b lp = Inr (nb, s') \<longrightarrow>
           (\<forall>a<length (heap s). heap s' ! a = heap s ! a)
           \<and> (\<forall>c<numberOfChannels b. getChannelData (heap s') b c = getChannelData (heap s) b c))
       \<and> (createExtendedLoop s b d = Inr (nb', s'') \<longrightarrow>
           (\<forall>a<length (heap s). heap s'' ! a = heap s ! a)
           \<and> (\<forall>c<numberOfChannels b. getChannelData (heap s'') b c = getChannelData (heap s) b c))"
  using applyCrossfade_frame [of s b lp nb s'] createExtendedLoop_frame [of s b d nb' s'']
    unchanged_channels [OF wf, of "heap s'"] unchanged_channels [OF wf, of "heap s''"]
  by blast

theorem synthesis_leaves_input_unchanged_witness:
  "wf_buffer (heap \<lparr>heap = [[Fin 1, Fin 2, Fin 3]], trace = []\<rparr>)
     \<lparr>sampleRate = 8000, buf_length = 3, channelData = [0]\<rparr>
   \<and> (\<exists>nb s'. applyCrossfade \<lparr>heap = [[Fin 1, Fin 2, Fin 3]], trace = []\<rparr>
          \<lparr>sampleRate = 8000, buf_length = 3, channelData = [0]\<rparr>
          \<lparr>lp_start = 0, lp_end = 1 / 4000, startSample = 0, endSample = 2,
            crossfadeDuration = Fin (1 / 4096)\<rparr> = Inr (nb, s')
        \<and> heap s' ! 0 = [Fin 1, Fin 2, Fin 3])
   \<and> (\<exists>nb s'. createExtendedLoop \<lparr>heap = [[Fin 1, Fin 2, Fin 3]], trace = []\<rparr>
          \<lparr>sampleRate = 8000, buf_length = 3, channelData = [0]\<rparr> (1 / 1024) = Inr (nb, s')
        \<and> heap s' ! 0 = [Fin 1, Fin 2, Fin 3])"
proof -
  define s :: cf_state where "s = \<lparr>heap = [[Fin 1, Fin 2, Fin 3]], trace = []\<rparr>"
  define b where "b = \<lparr>sampleRate = 8000, buf_length = 3, channelData = [0]\<rparr>"
  define lp where "lp = \<lparr>lp_start = 0, lp_end = 1 / 4000, startSample = 0, endSample = 2,
            crossfadeDuration = Fin (1 / 4096)\<rparr>"
  have wf: "wf_buffer (heap s) b" by (simp add: wf_buffer_def s_def b_def)
  have d: "dbl (125 / 64) = 125 / 64" "dbl (125 / 16) = 125 / 16"
    using dbl_dyadic [of 125 6] dbl_dyadic [of 125 4] by simp_all
  obtain nb s' where a: "applyCrossfade s b lp = Inr (nb, s')"
    using applyCrossfade_returns [of b lp 1 s]
    by (auto simp: b_def lp_def numberOfChannels_def fadeLength_of_def d)
  have "\<lfloor>dbl (1 / 1024 * sampleRate b)\<rfloor> = 7" by (simp add: b_def d)
  then obtain nb' s'' where e: "createExtendedLoop s b (1 / 1024) = Inr (nb', s'')"
    using createExtendedLoop_returns [of b "1 / 1024" s] by (auto simp: b_def numberOfChannels_def)
  have "heap s' ! 0 = heap s ! 0" "heap s'' ! 0 = heap s ! 0"
    using synthesis_leaves_input_unchanged [OF wf, of lp nb s' "1 / 1024" nb' s''] a e
    by (simp_all add: s_def)
  then show ?thesis
    using wf a e unfolding s_def b_def lp_def by auto
qed

end
